theory Spec2Isabelle
  imports Main "HOL-Library.Sublist" "HOL-Library.AList"
begin

section \<open>Constituency results parser (src/parser.py)\<close>

text \<open>
  A shallow embedding of \<^verbatim>\<open>parser.py\<close>: the \<^verbatim>\<open>Constituency\<close> class, its
  \<^verbatim>\<open>to_pandas\<close> method and the \<^verbatim>\<open>parse\<close> function. The two libraries the
  program calls (BeautifulSoup and pandas) are modelled as far as the program uses
  them; each such definition says which library behaviour it stands for.
\<close>

subsection \<open>Python strings\<close>

text \<open>
  A Python \<^verbatim>\<open>str\<close> is a sequence of Unicode code points, here integers.
  \<open>py\<close> gives the Python string of a literal of ASCII characters.
\<close>

type_synonym pystr = "int list"

definition py :: "string \<Rightarrow> pystr" where
  "py s = map of_char s"

text \<open>
  \<^verbatim>\<open>s.replace(old, new)\<close>: every non-overlapping occurrence of \<open>old\<close>, found from
  the left, is replaced by \<open>new\<close>; an empty \<open>old\<close> matches before every character
  and at the end.
\<close>

function replace :: "'a list \<Rightarrow> 'a list \<Rightarrow> 'a list \<Rightarrow> 'a list" where
  "replace old new [] = (if old = [] then new else [])"
| "replace old new (c # cs) =
     (if old = [] then new @ c # replace old new cs
      else if prefix old (c # cs) then new @ replace old new (drop (length old) (c # cs))
      else c # replace old new cs)"
  by pat_completeness auto
termination
  by (relation "measure (\<lambda>(old, new, s). length s)") auto

text \<open>
  \<^verbatim>\<open>\d\<close> in a pattern that is a \<^verbatim>\<open>str\<close>: every Unicode decimal digit, not only
  \<^verbatim>\<open>0\<close> to \<^verbatim>\<open>9\<close>. The decimal digits come in runs of ten consecutive code points;
  the list holds the code point of the zero of each run, for Unicode 14.0, the
  version of Python 3.11 (an interpreter with a later version knows more runs).
\<close>

definition decimal_zeros :: "int list" where
  "decimal_zeros =
     [48, 1632, 1776, 1984, 2406, 2534, 2662, 2790, 2918, 3046, 3174, 3302, 3430, 3558,
      3664, 3792, 3872, 4160, 4240, 6112, 6160, 6470, 6608, 6784, 6800, 6992, 7088, 7232,
      7248, 42528, 43216, 43264, 43472, 43504, 43600, 44016, 65296, 66720, 68912, 69734,
      69872, 69942, 70096, 70384, 70736, 70864, 71248, 71360, 71472, 71904, 72016, 72784,
      73040, 73120, 92768, 92864, 93008, 120782, 120792, 120802, 120812, 120822, 123200,
      123632, 125264, 130032]"

definition is_digit :: "int \<Rightarrow> bool" where
  "is_digit c = list_ex (\<lambda>z. z \<le> c \<and> c < z + 10) decimal_zeros"

text \<open>The character class \<^verbatim>\<open>[\d,]\<close> of the electorate pattern.\<close>

definition digit_or_comma :: "int \<Rightarrow> bool" where
  "digit_or_comma c = (is_digit c \<or> c = of_char CHR '','')"

text \<open>
  \<^verbatim>\<open>re.search(pattern, s)\<close> for a pattern that is a literal followed by
  \<^verbatim>\<open>[...]{1,}\<close>, one or more characters of a class: the match starts at the
  leftmost position at which the literal is followed by at least one character of
  the class, and is greedy. The result is \<^verbatim>\<open>group(0)\<close> of the match, or
  \<open>None\<close> when there is no match.
\<close>

fun re_search :: "'a list \<Rightarrow> ('a \<Rightarrow> bool) \<Rightarrow> 'a list \<Rightarrow> 'a list option" where
  "re_search lit cls [] = None"
| "re_search lit cls (c # cs) =
     (if prefix lit (c # cs) \<and> takeWhile cls (drop (length lit) (c # cs)) \<noteq> []
      then Some (lit @ takeWhile cls (drop (length lit) (c # cs)))
      else re_search lit cls cs)"

subsection \<open>Errors\<close>

text \<open>
  The Python exceptions that the modelled code can raise. \<open>OSError\<close> stands for its
  subclasses as well (\<^verbatim>\<open>FileNotFoundError\<close>, \<^verbatim>\<open>PermissionError\<close>,
  \<^verbatim>\<open>IsADirectoryError\<close>).
\<close>

datatype py_error =
  IndexError | AttributeError | ValueError | KeyError
  | OSError | UnicodeDecodeError | UnicodeEncodeError

text \<open>
  One statement after another: an exception raised by the first ends the
  computation, otherwise the second goes on with the value of the first.
\<close>

definition then_do :: "'e + 'a \<Rightarrow> ('a \<Rightarrow> 'e + 'b) \<Rightarrow> 'e + 'b" where
  "then_do r f = (case r of Inl e \<Rightarrow> Inl e | Inr x \<Rightarrow> f x)"

subsection \<open>The parsed document (BeautifulSoup)\<close>

text \<open>
  A BeautifulSoup tree: a \<^verbatim>\<open>Tag\<close> has a name and children, a
  \<^verbatim>\<open>NavigableString\<close> is a piece of text. The \<^verbatim>\<open>BeautifulSoup\<close> object itself
  is the root \<open>Tag\<close> of the tree. The program compares tag names with five ASCII
  names only; they are kept as \<open>string\<close>.
\<close>

datatype node = Tag string "node list" | NavigableString pystr

fun is_tag :: "string \<Rightarrow> node \<Rightarrow> bool" where
  "is_tag nm (Tag t cs) = (t = nm)"
| "is_tag nm (NavigableString s) = False"

text \<open>
  \<^verbatim>\<open>tag.find_all(name)\<close>: every descendant tag of that name (not the tag itself),
  at any depth, in document order (\<^verbatim>\<open>recursive=True\<close> is the library's default).
\<close>

fun find_all :: "string \<Rightarrow> node \<Rightarrow> node list" where
  "find_all nm (NavigableString s) = []"
| "find_all nm (Tag t cs) =
     concat (map (\<lambda>c. (if is_tag nm c then [c] else []) @ find_all nm c) cs)"

text \<open>
  \<^verbatim>\<open>tag.text\<close>: all strings below the tag, concatenated in document order (for a
  string, the string itself).
\<close>

fun text_of :: "node \<Rightarrow> pystr" where
  "text_of (NavigableString s) = s"
| "text_of (Tag t cs) = concat (map text_of cs)"

subsection \<open>The data frame (pandas)\<close>

text \<open>
  A cell of a data frame holds a Python string, the empty list (the value
  \<^verbatim>\<open>Constituency.__init__\<close> gives \<^verbatim>\<open>electorate\<close>), or the missing value NaN.
\<close>

datatype cell = Str pystr | EmptyList | NaN

text \<open>
  A data frame: its columns in order, each a label with its values, and its index,
  the labels of its rows (integers here). Column labels are the ASCII literals of
  the program, kept as \<open>string\<close>.
\<close>

record dataframe =
  columns :: "(string \<times> cell list) list"
  index :: "nat list"

text \<open>\<^verbatim>\<open>pd.DataFrame(columns=[...])\<close>: the named columns, no rows.\<close>

definition DataFrame :: "string list \<Rightarrow> dataframe" where
  "DataFrame labels = \<lparr>columns = map (\<lambda>k. (k, [])) labels, index = []\<rparr>"

text \<open>
  Assigning a list to a column, \<^verbatim>\<open>df[key] = value\<close>. A frame whose index is empty
  takes the index 0, 1, ... of a non-empty value, the columns it already has being
  filled with NaN; then a value whose length differs from the index raises
  \<^verbatim>\<open>ValueError\<close>; otherwise the column is replaced, or added after the others.
\<close>

definition ensure_valid_index :: "dataframe \<Rightarrow> cell list \<Rightarrow> dataframe" where
  "ensure_valid_index df val =
     (if index df = [] \<and> val \<noteq> []
      then \<lparr>columns = map (\<lambda>(k, vs). (k, replicate (length val) NaN)) (columns df),
            index = [0..<length val]\<rparr>
      else df)"

definition setitem :: "dataframe \<Rightarrow> string \<Rightarrow> cell list \<Rightarrow> py_error + dataframe" where
  "setitem df key val =
     (let df' = ensure_valid_index df val
      in if length val \<noteq> length (index df') then Inl ValueError
         else Inr (df'\<lparr>columns := AList.update key val (columns df')\<rparr>))"

text \<open>
  \<^verbatim>\<open>pd.concat([a, b])\<close>: the rows of \<open>a\<close> followed by the rows of \<open>b\<close>, each with
  the index label it had; the columns are those of \<open>a\<close> followed by the columns only
  \<open>b\<close> has (outer join, labels in order of first appearance, the default
  \<^verbatim>\<open>sort=False\<close> of pandas 1.0 and later); a frame that lacks a column contributes
  NaN there.
\<close>

definition column_or_nan :: "dataframe \<Rightarrow> string \<Rightarrow> cell list" where
  "column_or_nan df k =
     (case map_of (columns df) k of
        Some vs \<Rightarrow> vs
      | None \<Rightarrow> replicate (length (index df)) NaN)"

definition pd_concat :: "dataframe \<Rightarrow> dataframe \<Rightarrow> dataframe" where
  "pd_concat a b =
     (let labels = map fst (columns a)
                   @ filter (\<lambda>k. k \<notin> set (map fst (columns a))) (map fst (columns b))
      in \<lparr>columns = map (\<lambda>k. (k, column_or_nan a k @ column_or_nan b k)) labels,
          index = index a @ index b\<rparr>)"

text \<open>
  \<^verbatim>\<open>series.str.replace(',', '')\<close>: strings have their commas removed, any other
  value becomes NaN.
\<close>

fun str_replace_cell :: "pystr \<Rightarrow> pystr \<Rightarrow> cell \<Rightarrow> cell" where
  "str_replace_cell old new (Str s) = Str (replace old new s)"
| "str_replace_cell old new EmptyList = NaN"
| "str_replace_cell old new NaN = NaN"

text \<open>
  The rows of a frame, each the cells of the columns in order. Every column of a
  frame that the program builds has one value for each entry of the index.
\<close>

definition rows :: "dataframe \<Rightarrow> cell list list" where
  "rows df = map (\<lambda>i. map (\<lambda>(k, vs). vs ! i) (columns df)) [0..<length (index df)]"

text \<open>
  \<^verbatim>\<open>df.to_csv(path, index=index, header=header)\<close>, the text written: when
  \<open>header\<close> is set a first line of column labels; then one line per row; when
  \<open>index\<close> is set every line starts with a field more, the index label of the row
  (empty in the header line). Fields are separated by commas and each line is ended
  by a newline. NaN is written as the empty field; a field holding a comma, a
  double quote or a line break is quoted, with its quotes doubled.
\<close>

definition csv_field :: "pystr \<Rightarrow> pystr" where
  "csv_field s =
     (if list_ex (\<lambda>c. c \<in> set (py [CHR '','', CHR 0x22, CHR 0x0A, CHR 0x0D])) s
      then py [CHR 0x22] @ replace (py [CHR 0x22]) (py [CHR 0x22, CHR 0x22]) s @ py [CHR 0x22]
      else s)"

fun cell_text :: "cell \<Rightarrow> pystr" where
  "cell_text (Str s) = s"
| "cell_text EmptyList = py ''[]''"
| "cell_text NaN = []"

fun join :: "'a list \<Rightarrow> 'a list list \<Rightarrow> 'a list" where
  "join sep [] = []"
| "join sep [x] = x"
| "join sep (x # y # ys) = x @ sep @ join sep (y # ys)"

definition csv_line :: "pystr list \<Rightarrow> pystr" where
  "csv_line vals = join (py '','') (map csv_field vals) @ py [CHR 0x0A]"

text \<open>\<^verbatim>\<open>str(n)\<close> for an index label: its decimal digits.\<close>

function decimal :: "nat \<Rightarrow> pystr" where
  "decimal n =
     (if n < 10 then [of_char CHR ''0'' + int n]
      else decimal (n div 10) @ [of_char CHR ''0'' + int (n mod 10)])"
  by pat_completeness auto
termination
  by (relation "measure (\<lambda>n. n)") auto

declare decimal.simps [simp del]

definition to_csv :: "dataframe \<Rightarrow> bool \<Rightarrow> bool \<Rightarrow> pystr" where
  "to_csv df index_flag header =
     (if header
      then csv_line ((if index_flag then [[]] else []) @ map py (map fst (columns df)))
      else [])
     @ concat (map (\<lambda>(label, r).
                     csv_line ((if index_flag then [decimal label] else []) @ map cell_text r))
                 (zip (index df) (rows df)))"

subsection \<open>The Constituency class\<close>

record constituency =
  name :: pystr
  candidates :: "pystr list"
  parties :: "pystr list"
  votes :: "pystr list"
  percent :: "pystr list"
  electorate :: cell

definition Constituency :: "pystr \<Rightarrow> constituency" where
  "Constituency nm =
     \<lparr>name = nm, candidates = [], parties = [], votes = [], percent = [],
      electorate = EmptyList\<rparr>"

definition to_pandas :: "constituency \<Rightarrow> py_error + dataframe" where
  "to_pandas self =
     (let names = replicate (length (candidates self)) (name self);
          electorates = replicate (length names) (electorate self);
          dataframe = DataFrame [''names'', ''candidates'', ''parties'', ''votes'',
                                 ''percent'', ''electorate'']
      in then_do (setitem dataframe ''names'' (map Str names)) (\<lambda>dataframe.
         then_do (setitem dataframe ''candidates'' (map Str (candidates self))) (\<lambda>dataframe.
         then_do (setitem dataframe ''parties'' (map Str (parties self))) (\<lambda>dataframe.
         then_do (setitem dataframe ''votes'' (map Str (votes self))) (\<lambda>dataframe.
         then_do (setitem dataframe ''percent'' (map Str (percent self))) (\<lambda>dataframe.
         setitem dataframe ''electorate'' electorates))))))"

subsection \<open>The parse function\<close>

text \<open>Line 112: \<^verbatim>\<open>soup.find_all('table')[1]\<close>.\<close>

definition big_table_of :: "node \<Rightarrow> py_error + node" where
  "big_table_of soup =
     (case find_all ''table'' soup of
        t0 # t1 # ts \<Rightarrow> Inr t1
      | _ \<Rightarrow> Inl IndexError)"

text \<open>
  Lines 129 to 131, for the text of one paragraph: \<^verbatim>\<open>exp\<close> is \<^verbatim>\<open>None\<close> when
  the pattern is not found, and \<^verbatim>\<open>exp.group(0)\<close> then raises
  \<^verbatim>\<open>AttributeError\<close>.
\<close>

definition new_exp :: "pystr \<Rightarrow> py_error + pystr" where
  "new_exp s =
     (case re_search (py ''Electorate: '') digit_or_comma s of
        None \<Rightarrow> Inl AttributeError
      | Some exp \<Rightarrow> Inr (replace (py '','') [] (replace (py ''Electorate: '') [] exp)))"

text \<open>Lines 127 to 132, the loop over the paragraphs of one row.\<close>

fun collect_electorates :: "pystr list \<Rightarrow> node list \<Rightarrow> py_error + pystr list" where
  "collect_electorates electorates [] = Inr electorates"
| "collect_electorates electorates (constituency_info # ps) =
     (case new_exp (text_of constituency_info) of
        Inl e \<Rightarrow> Inl e
      | Inr figure \<Rightarrow> collect_electorates (electorates @ [figure]) ps)"

text \<open>Lines 120 to 132, the loop over the rows of the big table.\<close>

fun collect_rows ::
  "node list \<times> pystr list \<Rightarrow> node list \<Rightarrow> py_error + node list \<times> pystr list" where
  "collect_rows (constituency_names, electorates) [] = Inr (constituency_names, electorates)"
| "collect_rows (constituency_names, electorates) (tr # trs) =
     (case collect_electorates electorates (find_all ''p'' tr) of
        Inl e \<Rightarrow> Inl e
      | Inr electorates' \<Rightarrow>
          collect_rows (constituency_names @ find_all ''b'' tr, electorates') trs)"

text \<open>Lines 152 to 164, the body of the loop over the cells: one cell at \<open>count\<close>.\<close>

definition decode_item :: "nat \<Rightarrow> constituency \<Rightarrow> node \<Rightarrow> constituency" where
  "decode_item count c item =
     (if count mod 4 = 0
      then c\<lparr>candidates :=
               candidates c @ [replace (py ''*'') [] (replace (py '','') [] (text_of item))]\<rparr>
      else if count mod 4 = 1
      then c\<lparr>parties := parties c @ [replace (py '','') [] (text_of item)]\<rparr>
      else if count mod 4 = 2
      then c\<lparr>votes := votes c @ [replace (py '','') [] (text_of item)]\<rparr>
      else if count mod 4 = 3
      then c\<lparr>percent :=
               percent c @ [replace (py ''%'') [] (replace (py '','') [] (text_of item))]\<rparr>
      else c)"

text \<open>Lines 148 to 164, the loop over the cells of one row.\<close>

fun decode_items :: "nat \<times> constituency \<Rightarrow> node list \<Rightarrow> nat \<times> constituency" where
  "decode_items (count, c) [] = (count, c)"
| "decode_items (count, c) (item # items) =
     decode_items (count + 1, decode_item count c item) items"

text \<open>Lines 146 to 164, the loop over the rows of one nested table.\<close>

fun decode_rows :: "nat \<times> constituency \<Rightarrow> node list \<Rightarrow> nat \<times> constituency" where
  "decode_rows (count, c) [] = (count, c)"
| "decode_rows (count, c) (row # rs) =
     decode_rows (decode_items (count, c) (find_all ''td'' row)) rs"

text \<open>
  Lines 145 to 164: \<open>count\<close> is set to 0, then the rows of the nested table and
  the cells of each row are gone through.
\<close>

definition decode_table :: "constituency \<Rightarrow> node \<Rightarrow> constituency" where
  "decode_table c table = snd (decode_rows (0, c) (find_all ''tr'' table))"

text \<open>The cells of a nested table in the order in which these two loops reach them.\<close>

definition cells_of :: "node \<Rightarrow> node list" where
  "cells_of table = concat (map (find_all ''td'') (find_all ''tr'' table))"

text \<open>
  Lines 137 to 167, the loop over the nested tables: \<open>con_count\<close> indexes the two
  side lists, and an index past the end of either raises \<^verbatim>\<open>IndexError\<close>.
\<close>

fun build_constituencies ::
  "node list \<Rightarrow> pystr list \<Rightarrow> nat \<Rightarrow> constituency list \<Rightarrow> node list
     \<Rightarrow> py_error + constituency list" where
  "build_constituencies constituency_names electorates con_count constituencies [] =
     Inr constituencies"
| "build_constituencies constituency_names electorates con_count constituencies (table # ts) =
     (if \<not> con_count < length constituency_names then Inl IndexError
      else if \<not> con_count < length electorates then Inl IndexError
      else
        let c = Constituency (text_of (constituency_names ! con_count));
            c = c\<lparr>electorate := Str (electorates ! con_count)\<rparr>;
            c = decode_table c table
        in build_constituencies constituency_names electorates (con_count + 1)
             (constituencies @ [c]) ts)"

text \<open>
  Lines 176 to 185: a \<^verbatim>\<open>ValueError\<close> of \<^verbatim>\<open>to_pandas\<close> is caught and the
  constituency passed over; any other exception is not caught.
\<close>

fun assemble :: "dataframe \<Rightarrow> constituency list \<Rightarrow> py_error + dataframe" where
  "assemble dataframe [] = Inr dataframe"
| "assemble dataframe (c # cs) =
     (case to_pandas c of
        Inr frame \<Rightarrow> assemble (pd_concat dataframe frame) cs
      | Inl e \<Rightarrow> if e = ValueError then assemble dataframe cs else Inl e)"

text \<open>
  Line 188: the column is read (\<^verbatim>\<open>KeyError\<close> if the frame has none of that
  label) and assigned back with the commas removed; the assigned series has the
  frame's own index, so the values are stored as they are.
\<close>

definition strip_names :: "dataframe \<Rightarrow> py_error + dataframe" where
  "strip_names df =
     (case map_of (columns df) ''names'' of
        None \<Rightarrow> Inl KeyError
      | Some vs \<Rightarrow>
          Inr (df\<lparr>columns :=
                 AList.update ''names'' (map (str_replace_cell (py '','') []) vs)
                   (columns df)\<rparr>))"

text \<open>Lines 112 to 188: \<^verbatim>\<open>parse\<close> from the parsed document to the final frame.\<close>

definition parse_soup :: "node \<Rightarrow> py_error + dataframe" where
  "parse_soup soup =
     then_do (big_table_of soup) (\<lambda>big_table.
     then_do (collect_rows ([], []) (find_all ''tr'' big_table)) (\<lambda>(constituency_names, electorates).
     then_do (build_constituencies constituency_names electorates 0 []
                (find_all ''table'' big_table)) (\<lambda>constituencies.
     then_do (assemble (DataFrame [''names'', ''candidates'', ''parties'', ''votes'', ''percent''])
                constituencies)
       strip_names)))"

text \<open>
  \<^verbatim>\<open>parse(file_handle, write_to_csv)\<close> with what it takes from and gives to the
  file system. \<open>opened\<close> is what opening and reading the file at line 109 gives:
  its text, or the exception raised (a missing or unreadable file, bytes that are
  not text in the encoding of the locale). \<open>lxml\<close> stands for
  \<^verbatim>\<open>BeautifulSoup(..., features='lxml')\<close>, which builds a tree from any text.
  \<open>write_error\<close> is the exception that writing the file at line 194 raises, if any.
  The result is the value returned or the exception raised, together with the file
  written, if one has been: its path, \<^verbatim>\<open>file_handle[:-4] + ".csv"\<close>, and its text.
\<close>

definition parse ::
  "(pystr \<Rightarrow> node) \<Rightarrow> py_error + pystr \<Rightarrow> py_error option \<Rightarrow> pystr \<Rightarrow> bool
     \<Rightarrow> (py_error + dataframe) \<times> (pystr \<times> pystr) option" where
  "parse lxml opened write_error file_handle write_to_csv =
     (case opened of
        Inl e \<Rightarrow> (Inl e, None)
      | Inr content \<Rightarrow>
          (case parse_soup (lxml content) of
             Inl e \<Rightarrow> (Inl e, None)
           | Inr dataframe \<Rightarrow>
               if write_to_csv
               then (case write_error of
                       Some e \<Rightarrow> (Inl e, None)
                     | None \<Rightarrow>
                         (Inr dataframe,
                          Some (take (length file_handle - 4) file_handle @ py ''.csv'',
                                to_csv dataframe False False)))
               else (Inr dataframe, None)))"

subsection \<open>Predicates used in the statements\<close>

text \<open>The four sequences of a constituency have the same length.\<close>

definition equal_lengths :: "constituency \<Rightarrow> bool" where
  "equal_lengths c \<longleftrightarrow>
     length (parties c) = length (candidates c)
     \<and> length (votes c) = length (candidates c)
     \<and> length (percent c) = length (candidates c)"

text \<open>
  The rows of one constituency: for each candidate the name of the constituency,
  the candidate, the party, the votes, the percentage and the electorate.
\<close>

definition record_rows :: "constituency \<Rightarrow> cell list list" where
  "record_rows c =
     map (\<lambda>i. [Str (name c), Str (candidates c ! i), Str (parties c ! i), Str (votes c ! i),
                Str (percent c ! i), electorate c])
       [0..<length (candidates c)]"

text \<open>The column labels given at line 170, and those given at line 79.\<close>

definition five_labels :: "string list" where
  "five_labels = [''names'', ''candidates'', ''parties'', ''votes'', ''percent'']"

definition six_labels :: "string list" where
  "six_labels = [''names'', ''candidates'', ''parties'', ''votes'', ''percent'', ''electorate'']"

text \<open>
  The pattern, a literal followed by one or more characters of a class, matches at
  position \<open>i\<close> of a text: the literal stands there and a character of the class
  follows it.
\<close>

definition matches_at :: "'a list \<Rightarrow> ('a \<Rightarrow> bool) \<Rightarrow> 'a list \<Rightarrow> nat \<Rightarrow> bool" where
  "matches_at lit cls s i \<longleftrightarrow>
     prefix lit (drop i s)
     \<and> (case drop (i + length lit) s of [] \<Rightarrow> False | c # rest \<Rightarrow> cls c)"

text \<open>A cell is written without a comma.\<close>

definition no_comma :: "cell \<Rightarrow> bool" where
  "no_comma v \<longleftrightarrow> of_char CHR '','' \<notin> set (cell_text v)"

definition comma_free_record :: "constituency \<Rightarrow> bool" where
  "comma_free_record c \<longleftrightarrow>
     list_all (\<lambda>s. of_char CHR '','' \<notin> set s) (candidates c @ parties c @ votes c @ percent c)
     \<and> no_comma (electorate c)"

definition comma_free_but_names :: "dataframe \<Rightarrow> bool" where
  "comma_free_but_names df \<longleftrightarrow>
     list_all (\<lambda>(k, vs). k = ''names'' \<or> list_all no_comma vs) (columns df)"

text \<open>Every column has one value for each entry of the index.\<close>

definition full_columns :: "dataframe \<Rightarrow> bool" where
  "full_columns df \<longleftrightarrow>
     list_all (\<lambda>(k, vs). length vs = length (index df)) (columns df)"

subsection \<open>Readings of the specification that the code is compared with\<close>

text \<open>
  The specification's "table-like elements at the top level of the document": the
  tables that do not lie inside another table, in document order.
\<close>

fun spec_top_level_tables :: "node \<Rightarrow> node list" where
  "spec_top_level_tables (NavigableString s) = []"
| "spec_top_level_tables (Tag t cs) =
     concat (map (\<lambda>c. if is_tag ''table'' c then [c] else spec_top_level_tables c) cs)"

text \<open>The specification's "strip a trailing \<^verbatim>\<open>%\<close> sign".\<close>

definition spec_strip_trailing_percent :: "pystr \<Rightarrow> pystr" where
  "spec_strip_trailing_percent s =
     (if s \<noteq> [] \<and> last s = of_char CHR ''%'' then butlast s else s)"

subsection \<open>Sample documents\<close>

text \<open>
  The layout of the source site, as the specification describes it: a first table,
  then the results table, whose rows hold a bold constituency name, an electorate
  paragraph and a nested table of result cells.
\<close>

definition td :: "string \<Rightarrow> node" where
  "td s = Tag ''td'' [NavigableString (py s)]"

definition para :: "string \<Rightarrow> node" where
  "para s = Tag ''p'' [NavigableString (py s)]"

definition bold :: "string \<Rightarrow> node" where
  "bold s = Tag ''b'' [NavigableString (py s)]"

definition constituency_row :: "string \<Rightarrow> string \<Rightarrow> string list \<Rightarrow> node" where
  "constituency_row nm info cells =
     Tag ''tr'' [Tag ''td''
       [bold nm, para info, Tag ''table'' [Tag ''tr'' (map td cells)]]]"

definition page :: "node list \<Rightarrow> node" where
  "page trs =
     Tag ''[document]'' [Tag ''html'' [Tag ''body'' [Tag ''table'' [], Tag ''table'' trs]]]"

definition anytown :: node where
  "anytown = page [constituency_row ''Anytown'' ''Electorate: 54,321''
                     [''J. Doe*'', ''Indep'', ''1,234'', ''45.6%'']]"

text \<open>A seat whose nested table has three cells, followed by a well-formed one.\<close>

definition two_seats :: node where
  "two_seats = page
     [constituency_row ''Combined Universities'' ''Electorate: 2,000''
        [''A. Don'', ''Ind'', ''900''],
      constituency_row ''Bury, North'' ''Registered. Electorate: 54,321 (1997)''
        [''Smith, John*'', ''Lab'', ''1,234'', ''45.6%'']]"

text \<open>A document whose only top-level table holds a nested table.\<close>

definition nested_only :: node where
  "nested_only =
     Tag ''[document]'' [Tag ''html'' [Tag ''body''
       [Tag ''table'' [Tag ''tr'' [Tag ''td'' [Tag ''table'' []]]]]]]"

text \<open>A document with a single table.\<close>

definition one_table :: node where
  "one_table = Tag ''[document]'' [Tag ''html'' [Tag ''body'' [Tag ''table'' []]]]"

text \<open>A results table with a paragraph that carries no electorate figure.\<close>

definition with_note :: node where
  "with_note = page
     [Tag ''tr'' [Tag ''td'' [para ''Results by constituency'']],
      constituency_row ''Anytown'' ''Electorate: 54,321''
        [''J. Doe*'', ''Indep'', ''1,234'', ''45.6%'']]"

text \<open>
  A paragraph whose electorate figure stands after other text, and one whose figure
  is written in Arabic-Indic digits (the code points 1632 to 1641) and is followed
  by a note.
\<close>

definition late_figure :: node where
  "late_figure = para ''Registered. Electorate: 54,321 (1997)''"

definition arabic_figure :: node where
  "arabic_figure =
     Tag ''p'' [NavigableString (py ''Electorate: '' @ [1637, 1636, 44, 1635, 1634, 1633]
                                 @ py '' voters'')]"

text \<open>A results table whose second nested table has no name and no electorate.\<close>

definition unnamed_table :: node where
  "unnamed_table = page
     [constituency_row ''Anytown'' ''Electorate: 54,321''
        [''J. Doe*'', ''Indep'', ''1,234'', ''45.6%''],
      Tag ''tr'' [Tag ''td'' [Tag ''table'' [Tag ''tr''
        (map td [''R. Roe'', ''Lab'', ''4,321'', ''54.4%''])]]]]"

text \<open>A nested table whose percentage cell holds two \<^verbatim>\<open>%\<close> signs.\<close>

definition swing_table :: node where
  "swing_table =
     Tag ''table'' [Tag ''tr''
       (map td [''A. Smith*'', ''Lab'', ''12,345'', ''45.6% of 100%''])]"

text \<open>A well-formed constituency, and one whose percentages are missing.\<close>

definition sample_seat :: constituency where
  "sample_seat =
     \<lparr>name = py ''Anytown'', candidates = [py ''J. Doe'', py ''R. Roe''],
      parties = [py ''Indep'', py ''Lab''], votes = [py ''1234'', py ''4321''],
      percent = [py ''22.2'', py ''77.8''], electorate = Str (py ''54321'')\<rparr>"

definition short_seat :: constituency where
  "short_seat =
     \<lparr>name = py ''Combined Universities'', candidates = [py ''A. Don''], parties = [py ''Ind''],
      votes = [py ''900''], percent = [], electorate = Str (py ''2000'')\<rparr>"

section \<open>Properties\<close>

lemma py_simps [simp]: "py [] = []" "py (c # cs) = of_char c # py cs"
  by (simp_all add: py_def)

subsection \<open>The decode loop\<close>

lemma replace_single: "replace [c] [] s = filter (\<lambda>x. x \<noteq> c) s"
  by (induction s) auto

lemma select_snoc:
  "[f ((xs @ [x]) ! i). i \<leftarrow> [0..<Suc (length xs)], P i]
     = [f (xs ! i). i \<leftarrow> [0..<length xs], P i] @ (if P (length xs) then [f x] else [])"
proof -
  have "map (\<lambda>i. if P i then [f ((xs @ [x]) ! i)] else []) [0..<length xs]
      = map (\<lambda>i. if P i then [f (xs ! i)] else []) [0..<length xs]"
    by (rule map_cong) (simp_all add: nth_append)
  then have "concat (map (\<lambda>i. if P i then [f ((xs @ [x]) ! i)] else []) [0..<length xs])
      = concat (map (\<lambda>i. if P i then [f (xs ! i)] else []) [0..<length xs])"
    by (rule arg_cong)
  then show ?thesis by simp
qed

lemma decode_items_snoc:
  "decode_items (n, c) (xs @ [x]) =
     (case decode_items (n, c) xs of (k, c') \<Rightarrow> (k + 1, decode_item k c' x))"
  by (induction xs arbitrary: n c) auto

lemma decode_items_append:
  "decode_items s (xs @ ys) = decode_items (decode_items s xs) ys"
proof (induction xs arbitrary: s)
  case Nil
  show ?case by (cases s) simp
next
  case (Cons x xs)
  show ?case by (cases s) (simp add: Cons.IH)
qed

lemma decode_items_count: "fst (decode_items (n, c) items) = n + length items"
  by (induction items arbitrary: n c) auto

lemma decode_item_fields:
  "candidates (decode_item k c x) =
     candidates c @ (if k mod 4 = 0 then [replace (py ''*'') [] (replace (py '','') [] (text_of x))] else [])"
  "parties (decode_item k c x) =
     parties c @ (if k mod 4 = 1 then [replace (py '','') [] (text_of x)] else [])"
  "votes (decode_item k c x) =
     votes c @ (if k mod 4 = 2 then [replace (py '','') [] (text_of x)] else [])"
  "percent (decode_item k c x) =
     percent c @ (if k mod 4 = 3 then [replace (py ''%'') [] (replace (py '','') [] (text_of x))] else [])"
  "name (decode_item k c x) = name c"
  "electorate (decode_item k c x) = electorate c"
  by (simp_all add: decode_item_def)

lemma decode_items_step:
  "snd (decode_items (n, c) (xs @ [x])) = decode_item (n + length xs) (snd (decode_items (n, c) xs)) x"
  using decode_items_count [of n c xs]
  by (auto simp add: decode_items_snoc split: prod.splits)

lemma decode_items_field:
  assumes "\<And>k c x. g (decode_item k c x) = g c @ (if k mod 4 = r then [f x] else [])"
  shows "g (snd (decode_items (n, c) items)) =
     g c @ [f (items ! i). i \<leftarrow> [0..<length items], (n + i) mod 4 = r]"
proof (induction items rule: rev_induct)
  case Nil
  show ?case by simp
next
  case (snoc x xs)
  show ?case
    using select_snoc [where f = f and xs = xs and x = x and P = "\<lambda>i. (n + i) mod 4 = r"]
    by (simp only: decode_items_step assms snoc.IH length_append_singleton append_assoc)
qed

lemma decode_items_kept:
  assumes "\<And>k c x. g (decode_item k c x) = g c"
  shows "g (snd (decode_items (n, c) items)) = g c"
  by (induction items rule: rev_induct) (simp_all add: decode_items_step assms)

lemma decode_rows_items:
  "decode_rows s rs = decode_items s (concat (map (find_all ''td'') rs))"
proof (induction rs arbitrary: s)
  case Nil
  show ?case by (cases s) simp
next
  case (Cons r rs)
  show ?case by (cases s) (simp add: Cons.IH decode_items_append)
qed

lemma decode_table_items:
  "decode_table c table = snd (decode_items (0, c) (cells_of table))"
  by (simp add: decode_table_def cells_of_def decode_rows_items)

lemma decode_table_fields:
  "candidates (decode_table c table) = candidates c
     @ [replace (py ''*'') [] (replace (py '','') [] (text_of (cells_of table ! i))).
          i \<leftarrow> [0..<length (cells_of table)], i mod 4 = 0]"
  "parties (decode_table c table) = parties c
     @ [replace (py '','') [] (text_of (cells_of table ! i)).
          i \<leftarrow> [0..<length (cells_of table)], i mod 4 = 1]"
  "votes (decode_table c table) = votes c
     @ [replace (py '','') [] (text_of (cells_of table ! i)).
          i \<leftarrow> [0..<length (cells_of table)], i mod 4 = 2]"
  "percent (decode_table c table) = percent c
     @ [replace (py ''%'') [] (replace (py '','') [] (text_of (cells_of table ! i))).
          i \<leftarrow> [0..<length (cells_of table)], i mod 4 = 3]"
  "name (decode_table c table) = name c"
  "electorate (decode_table c table) = electorate c"
  using decode_items_field [where g = candidates and r = 0 and n = 0, OF decode_item_fields(1)]
        decode_items_field [where g = parties and r = 1 and n = 0, OF decode_item_fields(2)]
        decode_items_field [where g = votes and r = 2 and n = 0, OF decode_item_fields(3)]
        decode_items_field [where g = percent and r = 3 and n = 0, OF decode_item_fields(4)]
        decode_items_kept [where g = name, OF decode_item_fields(5)]
        decode_items_kept [where g = electorate, OF decode_item_fields(6)]
  by (simp_all add: decode_table_items)

lemma find_all_td: "find_all nm (td x) = []"
  by (simp add: td_def)

lemma is_tag_td: "is_tag nm (td x) = (nm = ''td'')"
  by (auto simp add: td_def)

lemma find_all_cells:
  "find_all nm (Tag t (map td r)) = (if nm = ''td'' then map td r else [])"
  by (induction r) (simp_all add: find_all_td is_tag_td)

lemma find_all_tr_rows:
  "find_all ''tr'' (Tag t (map (\<lambda>r. Tag ''tr'' (map td r)) rs))
     = map (\<lambda>r. Tag ''tr'' (map td r)) rs"
  using find_all_cells [of "''tr''" "''tr''"]
  by (induction rs) (simp_all del: find_all.simps add: find_all.simps(2) [of _ t])

lemma cells_of_plain_table:
  "cells_of (Tag t (map (\<lambda>r. Tag ''tr'' (map td r)) rs)) = map td (concat rs)"
  unfolding cells_of_def find_all_tr_rows
  by (induction rs) (simp_all add: find_all_cells del: find_all.simps)

subsection \<open>The side lists\<close>

lemma replace_no_prefix:
  "old \<noteq> [] \<Longrightarrow> hd old \<notin> set s \<Longrightarrow> replace old new s = s"
proof (induction s)
  case Nil
  then show ?case by simp
next
  case (Cons a s)
  then have "\<not> prefix old (a # s)"
    by (cases old) auto
  with Cons show ?case by simp
qed

lemma replace_own_prefix:
  assumes "old \<noteq> []" "hd old \<notin> set s"
  shows "replace old [] (old @ s) = s"
proof -
  obtain a r where old: "old = a # r"
    using assms(1) by (cases old) auto
  have "replace old [] (old @ s) = replace old [] (drop (length old) (old @ s))"
    unfolding old by simp
  then show ?thesis
    using assms by (simp add: replace_no_prefix)
qed

lemma re_search_Some:
  assumes "re_search lit cls s = Some m"
  shows "\<exists>pre run rest. s = pre @ lit @ run @ rest \<and> m = lit @ run
           \<and> run \<noteq> [] \<and> (\<forall>c \<in> set run. cls c)
           \<and> (rest \<noteq> [] \<longrightarrow> \<not> cls (hd rest))"
  using assms
proof (induction s)
  case Nil
  then show ?case by simp
next
  case (Cons a s)
  show ?case
  proof (cases "prefix lit (a # s) \<and> takeWhile cls (drop (length lit) (a # s)) \<noteq> []")
    case True
    then obtain t where t: "a # s = lit @ t"
      by (auto simp only: prefix_def)
    have t': "drop (length lit) (a # s) = t"
      unfolding t by simp
    let ?run = "takeWhile cls t"
    have "a # s = [] @ lit @ ?run @ dropWhile cls t"
      unfolding t by simp
    moreover have "m = lit @ ?run"
    proof -
      have "re_search lit cls (a # s) = Some (lit @ takeWhile cls (drop (length lit) (a # s)))"
        using True by (simp only: re_search.simps if_True simp_thms)
      then show ?thesis
        using Cons.prems unfolding t' by simp
    qed
    moreover have "?run \<noteq> []"
      using True unfolding t' by simp
    moreover have "\<forall>c \<in> set ?run. cls c"
      by (auto dest: set_takeWhileD)
    moreover have "dropWhile cls t \<noteq> [] \<longrightarrow> \<not> cls (hd (dropWhile cls t))"
      using hd_dropWhile by blast
    ultimately show ?thesis by blast
  next
    case False
    then have "re_search lit cls s = Some m"
      using Cons.prems by (simp split: if_splits)
    from Cons.IH [OF this] obtain pre run rest where
      "s = pre @ lit @ run @ rest" "m = lit @ run"
      "run \<noteq> []" "\<forall>c \<in> set run. cls c" "rest \<noteq> [] \<longrightarrow> \<not> cls (hd rest)"
      by blast
    then have "a # s = (a # pre) @ lit @ run @ rest"
      by simp
    with \<open>m = _\<close> \<open>run \<noteq> []\<close> \<open>\<forall>c \<in> set run. cls c\<close>
      \<open>rest \<noteq> [] \<longrightarrow> \<not> cls (hd rest)\<close>
    show ?thesis by blast
  qed
qed

lemma new_exp_Inr:
  assumes "new_exp s = Inr figure"
  shows "\<exists>m. re_search (py ''Electorate: '') digit_or_comma s = Some m
           \<and> figure = filter (\<lambda>x. x \<noteq> of_char CHR '','') (drop 12 m)
           \<and> (\<forall>c \<in> set figure. is_digit c)"
proof -
  define lit where "lit = py ''Electorate: ''"
  have lit: "lit \<noteq> []" "hd lit = of_char CHR ''E''" "length lit = 12"
    by (simp_all add: lit_def)
  from assms obtain m where m: "re_search lit digit_or_comma s = Some m"
    and fig: "figure = replace [of_char CHR '',''] [] (replace lit [] m)"
    by (auto simp add: new_exp_def lit_def split: option.splits)
  from re_search_Some [OF m] obtain run where
    run: "m = lit @ run" "\<forall>c \<in> set run. digit_or_comma c"
    by blast
  have "\<not> digit_or_comma (of_char CHR ''E'')"
    by (simp add: digit_or_comma_def is_digit_def decimal_zeros_def)
  then have "hd lit \<notin> set run"
    using run(2) lit(2) by auto
  with lit(1) have "replace lit [] (lit @ run) = run"
    by (rule replace_own_prefix)
  then have "figure = filter (\<lambda>x. x \<noteq> of_char CHR '','') run"
    using fig unfolding run(1) by (simp only: replace_single)
  moreover have "drop 12 m = run"
    unfolding run(1) using lit(3) by simp
  moreover have "\<forall>c \<in> set (filter (\<lambda>x. x \<noteq> of_char CHR '','') run). is_digit c"
    using run(2) by (auto simp add: digit_or_comma_def)
  ultimately show ?thesis
    using m unfolding lit_def by blast
qed

lemma new_exp_Inl:
  "new_exp s = Inl e \<Longrightarrow> e = AttributeError"
  by (auto simp add: new_exp_def split: option.splits)

lemma collect_electorates_ok:
  "map (\<lambda>p. new_exp (text_of p)) ps = map Inr figures
     \<Longrightarrow> collect_electorates es ps = Inr (es @ figures)"
proof (induction ps arbitrary: es figures)
  case Nil
  then show ?case by simp
next
  case (Cons p ps)
  then obtain f fs where "figures = f # fs" "new_exp (text_of p) = Inr f"
    "map (\<lambda>p. new_exp (text_of p)) ps = map Inr fs"
    by (cases figures) auto
  then show ?case
    using Cons.IH [of fs "es @ [f]"] by simp
qed

lemma collect_electorates_fail:
  "p \<in> set ps \<Longrightarrow> new_exp (text_of p) = Inl AttributeError
     \<Longrightarrow> collect_electorates es ps = Inl AttributeError"
proof (induction ps arbitrary: es)
  case Nil
  then show ?case by simp
next
  case (Cons q ps)
  show ?case
  proof (cases "new_exp (text_of q)")
    case (Inl e)
    then have "e = AttributeError"
      by (rule new_exp_Inl)
    with Inl show ?thesis by simp
  next
    case (Inr f)
    then have "q \<noteq> p"
      using Cons.prems(2) by auto
    then show ?thesis
      using Cons Inr by simp
  qed
qed

lemma collect_electorates_Inl:
  "collect_electorates es ps = Inl e \<Longrightarrow> e = AttributeError"
proof (induction ps arbitrary: es)
  case Nil
  then show ?case by simp
next
  case (Cons q ps)
  show ?case
  proof (cases "new_exp (text_of q)")
    case (Inl e')
    then show ?thesis
      using Cons.prems new_exp_Inl [OF Inl] by simp
  next
    case (Inr f)
    then show ?thesis
      using Cons by simp
  qed
qed

lemma collect_rows_fail:
  "tr \<in> set trs \<Longrightarrow> p \<in> set (find_all ''p'' tr) \<Longrightarrow> new_exp (text_of p) = Inl AttributeError
     \<Longrightarrow> collect_rows (ns, es) trs = Inl AttributeError"
proof (induction trs arbitrary: ns es)
  case Nil
  then show ?case by simp
next
  case (Cons r trs)
  show ?case
  proof (cases "collect_electorates es (find_all ''p'' r)")
    case (Inl e)
    then show ?thesis
      using collect_electorates_Inl [OF Inl] by simp
  next
    case (Inr es')
    then have "r \<noteq> tr"
      using collect_electorates_fail [OF Cons.prems(2,3), of es] by auto
    then show ?thesis
      using Cons Inr by simp
  qed
qed

subsection \<open>The loop over the nested tables\<close>

lemma build_constituencies_ok:
  "n + length tables \<le> length names \<Longrightarrow> n + length tables \<le> length elects \<Longrightarrow>
   build_constituencies names elects n acc tables =
     Inr (acc @ map (\<lambda>(k, t). decode_table
                     ((Constituency (text_of (names ! k)))\<lparr>electorate := Str (elects ! k)\<rparr>) t)
                 (enumerate n tables))"
proof (induction tables arbitrary: n acc)
  case Nil
  show ?case by simp
next
  case (Cons t ts)
  then have "Suc n + length ts \<le> length names" "Suc n + length ts \<le> length elects"
    by simp_all
  from Cons.IH [OF this] show ?case
    using Cons.prems by (simp add: Let_def)
qed

lemma build_constituencies_fail:
  "length names < n + length tables \<or> length elects < n + length tables \<Longrightarrow>
   n \<le> length names \<Longrightarrow> n \<le> length elects \<Longrightarrow>
   build_constituencies names elects n acc tables = Inl IndexError"
proof (induction tables arbitrary: n acc)
  case Nil
  then show ?case by simp
next
  case (Cons t ts)
  show ?case
  proof (cases "n < length names \<and> n < length elects")
    case True
    have "length names < Suc n + length ts \<or> length elects < Suc n + length ts"
      using Cons.prems by simp
    from Cons.IH [OF this] show ?thesis
      using True by (simp add: Let_def)
  next
    case False
    then show ?thesis by auto
  qed
qed

lemma build_constituencies_Inr:
  assumes "build_constituencies names elects 0 [] tables = Inr cs"
  shows "length tables \<le> length names" "length tables \<le> length elects"
    "cs = map (\<lambda>(k, t). decode_table
                     ((Constituency (text_of (names ! k)))\<lparr>electorate := Str (elects ! k)\<rparr>) t)
                 (enumerate 0 tables)"
proof -
  have "\<not> (length names < 0 + length tables \<or> length elects < 0 + length tables)"
    using build_constituencies_fail [of names 0 tables elects "[]"] assms by auto
  then show le: "length tables \<le> length names" "length tables \<le> length elects"
    by simp_all
  then show "cs = map (\<lambda>(k, t). decode_table
                     ((Constituency (text_of (names ! k)))\<lparr>electorate := Str (elects ! k)\<rparr>) t)
                 (enumerate 0 tables)"
    using build_constituencies_ok [of 0 tables names elects "[]"] assms by simp
qed

subsection \<open>The conversion of one constituency\<close>

lemma to_pandas_ok:
  assumes "length (parties c) = length (candidates c)" "length (votes c) = length (candidates c)"
    "length (percent c) = length (candidates c)"
  shows "to_pandas c = Inr \<lparr>columns =
      [(''names'', replicate (length (candidates c)) (Str (name c))),
       (''candidates'', map Str (candidates c)),
       (''parties'', map Str (parties c)),
       (''votes'', map Str (votes c)),
       (''percent'', map Str (percent c)),
       (''electorate'', replicate (length (candidates c)) (electorate c))],
      index = [0..<length (candidates c)]\<rparr>"
  using assms
  by (cases "candidates c = []")
     (simp_all add: to_pandas_def Let_def then_do_def setitem_def
        ensure_valid_index_def DataFrame_def)

lemma to_pandas_bad:
  assumes "\<not> (length (parties c) = length (candidates c)
             \<and> length (votes c) = length (candidates c)
             \<and> length (percent c) = length (candidates c))"
  shows "to_pandas c = Inl ValueError"
  using assms
  by (cases "candidates c = []"; cases "parties c = []"; cases "votes c = []"; cases "percent c = []")
     (auto simp add: to_pandas_def Let_def then_do_def setitem_def
        ensure_valid_index_def DataFrame_def)

lemma to_pandas_Inl: "to_pandas c = Inl e \<Longrightarrow> e = ValueError"
  using to_pandas_ok [of c] to_pandas_bad [of c] by fastforce

subsection \<open>The assembly loop\<close>

lemma assemble_skip:
  "to_pandas c = Inl ValueError \<Longrightarrow>
   assemble df (before @ c # after) = assemble df (before @ after)"
proof (induction before arbitrary: df)
  case Nil
  then show ?case by simp
next
  case (Cons b before)
  then show ?case
    by (cases "to_pandas b") simp_all
qed

lemma assemble_Inr: "\<exists>out. assemble df cs = Inr out"
proof (induction cs arbitrary: df)
  case Nil
  show ?case by simp
next
  case (Cons c cs)
  show ?case
  proof (cases "to_pandas c")
    case (Inl e)
    then show ?thesis
      using to_pandas_Inl [OF Inl] Cons.IH [of df] by simp
  next
    case (Inr f)
    then show ?thesis
      using Cons.IH [of "pd_concat df f"] by simp
  qed
qed

subsection \<open>Column labels\<close>

lemma pd_concat_labels:
  "map fst (columns (pd_concat a b)) =
     map fst (columns a) @ filter (\<lambda>k. k \<notin> set (map fst (columns a))) (map fst (columns b))"
  by (simp add: pd_concat_def Let_def comp_def)

lemma pd_concat_index_len: "length (index (pd_concat a b)) = length (index a) + length (index b)"
  by (simp add: pd_concat_def Let_def)

lemma to_pandas_labels:
  assumes "to_pandas c = Inr f"
  shows "map fst (columns f) = six_labels"
proof (cases "equal_lengths c")
  case True
  then show ?thesis
    using to_pandas_ok [of c] assms by (auto simp add: equal_lengths_def six_labels_def)
next
  case False
  then show ?thesis
    using to_pandas_bad [of c] assms by (simp add: equal_lengths_def)
qed

lemma six_after_six: "six_labels @ filter (\<lambda>k. k \<notin> set six_labels) six_labels = six_labels"
  by simp

lemma six_after_five: "five_labels @ filter (\<lambda>k. k \<notin> set five_labels) six_labels = six_labels"
  by (simp add: five_labels_def six_labels_def)

lemma assemble_labels_six:
  "map fst (columns df) = six_labels \<Longrightarrow> assemble df cs = Inr out
     \<Longrightarrow> map fst (columns out) = six_labels"
proof (induction cs arbitrary: df)
  case Nil
  then show ?case by simp
next
  case (Cons c cs)
  show ?case
  proof (cases "to_pandas c")
    case (Inl e)
    then show ?thesis
      using Cons to_pandas_Inl [OF Inl] by simp
  next
    case (Inr f)
    have "map fst (columns (pd_concat df f)) = six_labels"
      unfolding pd_concat_labels Cons.prems(1) to_pandas_labels [OF Inr] by (rule six_after_six)
    from Cons.IH [OF this] show ?thesis
      using Cons.prems(2) Inr by simp
  qed
qed

lemma assemble_none:
  "\<forall>c \<in> set cs. \<not> equal_lengths c \<Longrightarrow> assemble df cs = Inr df"
proof (induction cs)
  case Nil
  show ?case by simp
next
  case (Cons c cs)
  then have "to_pandas c = Inl ValueError"
    using to_pandas_bad [of c] by (simp add: equal_lengths_def)
  then show ?case
    using Cons by simp
qed

lemma assemble_labels_five:
  "map fst (columns df) = five_labels \<Longrightarrow> \<exists>c \<in> set cs. equal_lengths c
     \<Longrightarrow> assemble df cs = Inr out \<Longrightarrow> map fst (columns out) = six_labels"
proof (induction cs arbitrary: df)
  case Nil
  then show ?case by simp
next
  case (Cons c cs)
  show ?case
  proof (cases "equal_lengths c")
    case True
    then obtain f where f: "to_pandas c = Inr f"
      using to_pandas_ok [of c] by (simp add: equal_lengths_def)
    have "map fst (columns (pd_concat df f)) = six_labels"
      unfolding pd_concat_labels Cons.prems(1) to_pandas_labels [OF f] by (rule six_after_five)
    then show ?thesis
      using assemble_labels_six [of "pd_concat df f" cs out] Cons.prems(3) f by simp
  next
    case False
    then have "to_pandas c = Inl ValueError"
      using to_pandas_bad [of c] by (simp add: equal_lengths_def)
    moreover have "\<exists>c \<in> set cs. equal_lengths c"
      using Cons.prems(2) False by auto
    ultimately show ?thesis
      using Cons.IH [of df] Cons.prems(1,3) by simp
  qed
qed

lemma update_labels: "k \<in> set (map fst al) \<Longrightarrow> map fst (AList.update k v al) = map fst al"
  by (simp add: update_keys)

lemma strip_names_Inr:
  assumes "''names'' \<in> set (map fst (columns df))"
  shows "\<exists>out. strip_names df = Inr out \<and> map fst (columns out) = map fst (columns df)
           \<and> length (index out) = length (index df)"
proof -
  obtain vs where vs: "map_of (columns df) ''names'' = Some vs"
    using assms by (metis map_of_eq_None_iff not_None_eq set_map)
  show ?thesis
    using assms by (simp add: strip_names_def vs update_labels)
qed

subsection \<open>Commas\<close>

lemma no_comma_simps [simp]:
  "no_comma (Str s) \<longleftrightarrow> of_char CHR '','' \<notin> set s" "no_comma NaN" "no_comma EmptyList"
  by (simp_all add: no_comma_def)

lemma replace_comma [simp]: "c \<notin> set (replace [c] [] s)"
  by (simp add: replace_single)

lemma replace_keeps_comma_free [simp]:
  "c \<notin> set s \<Longrightarrow> c \<notin> set (replace [d] [] s)"
  by (simp add: replace_single)

lemma decode_table_comma_free:
  assumes "comma_free_record c"
  shows "comma_free_record (decode_table c table)"
  using assms
  by (auto simp add: comma_free_record_def decode_table_fields list_all_iff)

lemma collect_electorates_comma_free:
  "collect_electorates es ps = Inr es' \<Longrightarrow> \<forall>e \<in> set es. of_char CHR '','' \<notin> set e
     \<Longrightarrow> \<forall>e \<in> set es'. of_char CHR '','' \<notin> set e"
proof (induction ps arbitrary: es)
  case Nil
  then show ?case by simp
next
  case (Cons p ps)
  show ?case
  proof (cases "new_exp (text_of p)")
    case (Inl e)
    then show ?thesis
      using Cons.prems by simp
  next
    case (Inr f)
    then have "of_char CHR '','' \<notin> set f"
      using new_exp_Inr [OF Inr] by auto
    then have "\<forall>e \<in> set (es @ [f]). of_char CHR '','' \<notin> set e"
      using Cons.prems(2) by simp
    from Cons.IH [OF _ this] show ?thesis
      using Cons.prems(1) Inr by simp
  qed
qed

lemma collect_rows_comma_free:
  "collect_rows (ns, es) trs = Inr (ns', es') \<Longrightarrow> \<forall>e \<in> set es. of_char CHR '','' \<notin> set e
     \<Longrightarrow> \<forall>e \<in> set es'. of_char CHR '','' \<notin> set e"
proof (induction trs arbitrary: ns es)
  case Nil
  then show ?case by simp
next
  case (Cons r trs)
  show ?case
  proof (cases "collect_electorates es (find_all ''p'' r)")
    case (Inl e)
    then show ?thesis
      using Cons.prems by simp
  next
    case (Inr es1)
    have "\<forall>e \<in> set es1. of_char CHR '','' \<notin> set e"
      using collect_electorates_comma_free [OF Inr Cons.prems(2)] .
    from Cons.IH [OF _ this] show ?thesis
      using Cons.prems(1) Inr by simp
  qed
qed

lemma build_constituencies_comma_free:
  assumes "build_constituencies names elects 0 [] tables = Inr cs"
    and "\<forall>e \<in> set elects. of_char CHR '','' \<notin> set e"
  shows "\<forall>c \<in> set cs. comma_free_record c"
proof
  fix c assume "c \<in> set cs"
  then obtain k t where kt: "(k, t) \<in> set (enumerate 0 tables)"
    and c: "c = decode_table
                  ((Constituency (text_of (names ! k)))\<lparr>electorate := Str (elects ! k)\<rparr>) t"
    unfolding build_constituencies_Inr(3) [OF assms(1)] by auto
  have "k < length elects"
    using kt build_constituencies_Inr(2) [OF assms(1)] by (simp add: in_set_enumerate_eq)
  then have "of_char CHR '','' \<notin> set (elects ! k)"
    using assms(2) by simp
  then have "comma_free_record ((Constituency (text_of (names ! k)))\<lparr>electorate := Str (elects ! k)\<rparr>)"
    by (simp add: comma_free_record_def Constituency_def)
  then show "comma_free_record c"
    unfolding c by (rule decode_table_comma_free)
qed

lemma to_pandas_comma_free:
  assumes "to_pandas c = Inr f" "comma_free_record c"
  shows "comma_free_but_names f"
proof (cases "equal_lengths c")
  case True
  then show ?thesis
    using to_pandas_ok [of c] assms
    by (auto simp add: equal_lengths_def comma_free_record_def comma_free_but_names_def list_all_iff)
next
  case False
  then show ?thesis
    using to_pandas_bad [of c] assms by (simp add: equal_lengths_def)
qed

lemma to_pandas_full:
  assumes "to_pandas c = Inr f"
  shows "full_columns f"
proof (cases "equal_lengths c")
  case True
  then show ?thesis
    using to_pandas_ok [of c] assms
    by (auto simp add: equal_lengths_def full_columns_def)
next
  case False
  then show ?thesis
    using to_pandas_bad [of c] assms by (simp add: equal_lengths_def)
qed

lemma column_or_nan_comma_free:
  "comma_free_but_names df \<Longrightarrow> k \<noteq> ''names'' \<Longrightarrow> list_all no_comma (column_or_nan df k)"
  by (auto simp add: comma_free_but_names_def column_or_nan_def list_all_iff
        split: option.splits dest: map_of_SomeD)

lemma column_or_nan_length:
  "full_columns df \<Longrightarrow> length (column_or_nan df k) = length (index df)"
  by (auto simp add: full_columns_def column_or_nan_def list_all_iff
        split: option.splits dest: map_of_SomeD)

lemma pd_concat_column:
  "(k, vs) \<in> set (columns (pd_concat a b)) \<Longrightarrow> vs = column_or_nan a k @ column_or_nan b k"
  by (auto simp add: pd_concat_def Let_def)

lemma pd_concat_comma_free:
  assumes "comma_free_but_names a" "comma_free_but_names b"
  shows "comma_free_but_names (pd_concat a b)"
  unfolding comma_free_but_names_def list_all_iff
proof
  fix x assume x: "x \<in> set (columns (pd_concat a b))"
  obtain k vs where kvs: "x = (k, vs)" by (cases x)
  have "vs = column_or_nan a k @ column_or_nan b k"
    using x pd_concat_column unfolding kvs by simp
  then have "k \<noteq> ''names'' \<Longrightarrow> list_all no_comma vs"
    using column_or_nan_comma_free [OF assms(1), of k] column_or_nan_comma_free [OF assms(2), of k]
    by simp
  then show "case x of (k, vs) \<Rightarrow> k = ''names'' \<or> Ball (set vs) no_comma"
    unfolding kvs by (auto simp add: list_all_iff)
qed

lemma pd_concat_full:
  assumes "full_columns a" "full_columns b"
  shows "full_columns (pd_concat a b)"
  unfolding full_columns_def list_all_iff
proof
  fix x assume x: "x \<in> set (columns (pd_concat a b))"
  obtain k vs where kvs: "x = (k, vs)" by (cases x)
  have "vs = column_or_nan a k @ column_or_nan b k"
    using x pd_concat_column unfolding kvs by simp
  then show "case x of (k, vs) \<Rightarrow> length vs = length (index (pd_concat a b))"
    unfolding kvs
    using column_or_nan_length [OF assms(1), of k] column_or_nan_length [OF assms(2), of k]
    by (simp add: pd_concat_index_len)
qed

lemma assemble_invariant:
  assumes step: "\<And>a b. P a \<Longrightarrow> Q b \<Longrightarrow> P (pd_concat a b)"
  shows "\<forall>c \<in> set cs. \<forall>f. to_pandas c = Inr f \<longrightarrow> Q f \<Longrightarrow> P df
           \<Longrightarrow> assemble df cs = Inr out \<Longrightarrow> P out"
proof (induction cs arbitrary: df)
  case Nil
  then show ?case by simp
next
  case (Cons c cs)
  have Q: "\<forall>c \<in> set cs. \<forall>f. to_pandas c = Inr f \<longrightarrow> Q f"
    using Cons.prems(1) by simp
  show ?case
  proof (cases "to_pandas c")
    case (Inl e)
    then have "assemble df cs = Inr out"
      using Cons.prems(3) to_pandas_Inl [OF Inl] by simp
    from Cons.IH [OF Q Cons.prems(2) this] show ?thesis .
  next
    case (Inr f)
    have "Q f"
      using Cons.prems(1) Inr by simp
    then have P: "P (pd_concat df f)"
      using step Cons.prems(2) by simp
    have "assemble (pd_concat df f) cs = Inr out"
      using Cons.prems(3) Inr by simp
    from Cons.IH [OF Q P this] show ?thesis .
  qed
qed

lemma set_update_subset: "set (AList.update k v al) \<subseteq> insert (k, v) (set al)"
  by (induction al) auto

lemma update_value:
  "distinct (map fst al) \<Longrightarrow> (k, w) \<in> set (AList.update k v al) \<Longrightarrow> w = v"
  by (induction al) (force split: if_splits)+

lemma str_replace_cell_comma_free [simp]: "no_comma (str_replace_cell [44] [] v)"
  by (cases v) simp_all

lemma strip_names_comma_free:
  assumes "strip_names df = Inr out" "comma_free_but_names df" "distinct (map fst (columns df))"
  shows "list_all (\<lambda>(k, vs). list_all no_comma vs) (columns out)"
proof -
  from assms(1) obtain vs where out:
    "out = df\<lparr>columns := AList.update ''names'' (map (str_replace_cell (py '','') []) vs) (columns df)\<rparr>"
    by (auto simp add: strip_names_def split: option.splits)
  let ?new = "map (str_replace_cell (py '','') []) vs"
  have "list_all no_comma ws" if "(k, ws) \<in> set (AList.update ''names'' ?new (columns df))" for k ws
  proof (cases "k = ''names''")
    case True
    then have "ws = ?new"
      using that update_value [OF assms(3)] by fastforce
    then show ?thesis
      by (simp add: list_all_iff)
  next
    case False
    then have "(k, ws) \<in> set (columns df)"
      using that set_update_subset [of "''names''" ?new "columns df"] by auto
    then show ?thesis
      using assms(2) False by (auto simp add: comma_free_but_names_def list_all_iff)
  qed
  then show ?thesis
    unfolding out by (auto simp add: list_all_iff)
qed

lemma strip_names_full:
  assumes "strip_names df = Inr out" "full_columns df"
  shows "full_columns out"
proof -
  from assms(1) obtain vs where vs: "map_of (columns df) ''names'' = Some vs" and out:
    "out = df\<lparr>columns := AList.update ''names'' (map (str_replace_cell (py '','') []) vs) (columns df)\<rparr>"
    by (auto simp add: strip_names_def split: option.splits)
  let ?new = "map (str_replace_cell (py '','') []) vs"
  have "length vs = length (index df)"
    using assms(2) map_of_SomeD [OF vs] by (auto simp add: full_columns_def list_all_iff)
  then have "length ws = length (index df)"
    if "(k, ws) \<in> set (AList.update ''names'' ?new (columns df))" for k ws
    using that set_update_subset [of "''names''" ?new "columns df"] assms(2)
    by (auto simp add: full_columns_def list_all_iff)
  then show ?thesis
    unfolding out by (auto simp add: full_columns_def list_all_iff)
qed

subsection \<open>The whole extraction\<close>

lemma parse_soup_Inr:
  assumes "parse_soup soup = Inr df"
  shows "\<exists>big_table names elects cs df0.
           big_table_of soup = Inr big_table
           \<and> collect_rows ([], []) (find_all ''tr'' big_table) = Inr (names, elects)
           \<and> build_constituencies names elects 0 [] (find_all ''table'' big_table) = Inr cs
           \<and> assemble (DataFrame five_labels) cs = Inr df0
           \<and> strip_names df0 = Inr df"
  using assms
  by (auto simp add: parse_soup_def then_do_def five_labels_def split: sum.splits prod.splits)

lemma parse_soup_stages:
  assumes "big_table_of soup = Inr big_table"
    and "collect_rows ([], []) (find_all ''tr'' big_table) = Inr (names, elects)"
    and "build_constituencies names elects 0 [] (find_all ''table'' big_table) = Inr cs"
    and "assemble (DataFrame five_labels) cs = Inr df0"
  shows "parse_soup soup = strip_names df0"
  using assms by (simp add: parse_soup_def then_do_def five_labels_def)

lemma DataFrame_labels: "map fst (columns (DataFrame labels)) = labels"
  by (simp add: DataFrame_def comp_def)

lemma DataFrame_full: "full_columns (DataFrame labels)"
  by (simp add: DataFrame_def full_columns_def list_all_iff)

lemma DataFrame_comma_free: "comma_free_but_names (DataFrame labels)"
  by (simp add: DataFrame_def comma_free_but_names_def list_all_iff)

lemma assemble_index_len:
  "assemble df cs = Inr out \<Longrightarrow>
   length (index out) = length (index df) + sum_list (map (\<lambda>c. length (candidates c)) (filter equal_lengths cs))"
proof (induction cs arbitrary: df)
  case Nil
  then show ?case by simp
next
  case (Cons c cs)
  show ?case
  proof (cases "equal_lengths c")
    case True
    then obtain f where f: "to_pandas c = Inr f" "length (index f) = length (candidates c)"
      using to_pandas_ok [of c] by (simp add: equal_lengths_def)
    then have "assemble (pd_concat df f) cs = Inr out"
      using Cons.prems by simp
    from Cons.IH [OF this] show ?thesis
      using True f(2) by (simp add: pd_concat_index_len)
  next
    case False
    then have "to_pandas c = Inl ValueError"
      using to_pandas_bad [of c] by (simp add: equal_lengths_def)
    then have "assemble df cs = Inr out"
      using Cons.prems by simp
    from Cons.IH [OF this] show ?thesis
      using False by simp
  qed
qed

lemma assemble_labels:
  assumes "assemble (DataFrame five_labels) cs = Inr out"
  shows "map fst (columns out) = (if list_ex equal_lengths cs then six_labels else five_labels)"
proof (cases "list_ex equal_lengths cs")
  case True
  then show ?thesis
    using assemble_labels_five [OF DataFrame_labels _ assms] by (simp add: list_ex_iff)
next
  case False
  then have "assemble (DataFrame five_labels) cs = Inr (DataFrame five_labels)"
    by (intro assemble_none) (simp add: list_ex_iff)
  then show ?thesis
    using assms False by (simp add: DataFrame_labels)
qed

lemma rows_lengths: "list_all (\<lambda>r. length r = length (columns df)) (rows df)"
  by (simp add: rows_def list_all_iff)

lemma rows_cells:
  assumes "full_columns df" "list_all (\<lambda>(k, vs). list_all P vs) (columns df)"
  shows "list_all (list_all P) (rows df)"
  using assms
  by (fastforce simp add: rows_def full_columns_def list_all_iff)

subsection \<open>The pattern search\<close>

lemma matches_at_0:
  "matches_at lit cls s 0 \<longleftrightarrow> prefix lit s \<and> takeWhile cls (drop (length lit) s) \<noteq> []"
  by (cases "drop (length lit) s") (simp_all add: matches_at_def)

lemma matches_at_Suc: "matches_at lit cls (a # s) (Suc i) \<longleftrightarrow> matches_at lit cls s i"
  by (simp add: matches_at_def)

lemma matches_at_bound: "matches_at lit cls s i \<Longrightarrow> i < length s"
  by (cases "i < length s") (simp_all add: matches_at_def)

lemma re_search_None:
  "re_search lit cls s = None \<longleftrightarrow> (\<forall>i. \<not> matches_at lit cls s i)"
proof (induction s)
  case Nil
  show ?case by (simp add: matches_at_def)
next
  case (Cons a s)
  have split: "(\<forall>i. \<not> matches_at lit cls (a # s) i)
      \<longleftrightarrow> \<not> matches_at lit cls (a # s) 0 \<and> (\<forall>i. \<not> matches_at lit cls s i)"
  proof
    assume h: "\<forall>i. \<not> matches_at lit cls (a # s) i"
    show "\<not> matches_at lit cls (a # s) 0 \<and> (\<forall>i. \<not> matches_at lit cls s i)"
    proof (intro conjI allI)
      show "\<not> matches_at lit cls (a # s) 0"
        using h by blast
      fix i
      have "\<not> matches_at lit cls (a # s) (Suc i)"
        using h by blast
      then show "\<not> matches_at lit cls s i"
        unfolding matches_at_Suc .
    qed
  next
    assume h: "\<not> matches_at lit cls (a # s) 0 \<and> (\<forall>i. \<not> matches_at lit cls s i)"
    show "\<forall>i. \<not> matches_at lit cls (a # s) i"
    proof
      fix i
      show "\<not> matches_at lit cls (a # s) i"
      proof (cases i)
        case 0
        with h show ?thesis by blast
      next
        case (Suc k)
        have "\<not> matches_at lit cls s k"
          using h by blast
        then show ?thesis
          unfolding Suc matches_at_Suc .
      qed
    qed
  qed
  show ?case
  proof (cases "matches_at lit cls (a # s) 0")
    case True
    then have "prefix lit (a # s) \<and> takeWhile cls (drop (length lit) (a # s)) \<noteq> []"
      unfolding matches_at_0 .
    then have "re_search lit cls (a # s) \<noteq> None"
      by simp
    then show ?thesis
      using True by blast
  next
    case False
    then have "\<not> (prefix lit (a # s) \<and> takeWhile cls (drop (length lit) (a # s)) \<noteq> [])"
      unfolding matches_at_0 .
    then have "re_search lit cls (a # s) = re_search lit cls s"
      by auto
    then show ?thesis
      unfolding split using Cons.IH False by simp
  qed
qed

lemma re_search_leftmost:
  "matches_at lit cls s i \<Longrightarrow> \<forall>j<i. \<not> matches_at lit cls s j
     \<Longrightarrow> re_search lit cls s = Some (lit @ takeWhile cls (drop (i + length lit) s))"
proof (induction s arbitrary: i)
  case Nil
  then show ?case by (simp add: matches_at_def)
next
  case (Cons a s)
  show ?case
  proof (cases i)
    case 0
    have "prefix lit (a # s) \<and> takeWhile cls (drop (length lit) (a # s)) \<noteq> []"
      using Cons.prems(1) unfolding 0 matches_at_0 .
    then show ?thesis
      unfolding 0 by simp
  next
    case (Suc k)
    have "\<not> matches_at lit cls (a # s) 0"
      using Cons.prems(2) Suc by simp
    then have "\<not> (prefix lit (a # s) \<and> takeWhile cls (drop (length lit) (a # s)) \<noteq> [])"
      unfolding matches_at_0 .
    then have step: "re_search lit cls (a # s) = re_search lit cls s"
      by auto
    have "matches_at lit cls s k"
      using Cons.prems(1) unfolding Suc matches_at_Suc .
    moreover have "\<forall>j<k. \<not> matches_at lit cls s j"
    proof (intro allI impI)
      fix j assume "j < k"
      then have "\<not> matches_at lit cls (a # s) (Suc j)"
        using Cons.prems(2) Suc by simp
      then show "\<not> matches_at lit cls s j"
        unfolding matches_at_Suc .
    qed
    ultimately have "re_search lit cls s = Some (lit @ takeWhile cls (drop (k + length lit) s))"
      by (rule Cons.IH)
    then show ?thesis
      unfolding step Suc by simp
  qed
qed

lemma new_exp_leftmost:
  assumes "matches_at (py ''Electorate: '') digit_or_comma s i"
    and "\<forall>j<i. \<not> matches_at (py ''Electorate: '') digit_or_comma s j"
  shows "new_exp s =
           Inr (filter (\<lambda>x. x \<noteq> of_char CHR '','') (takeWhile digit_or_comma (drop (i + 12) s)))"
proof -
  define lit where "lit = py ''Electorate: ''"
  define run where "run = takeWhile digit_or_comma (drop (i + 12) s)"
  have lit: "lit \<noteq> []" "hd lit = of_char CHR ''E''" "length lit = 12"
    by (simp_all add: lit_def)
  have m: "re_search lit digit_or_comma s = Some (lit @ run)"
    using re_search_leftmost [of lit digit_or_comma s i] assms
    unfolding lit_def [symmetric] run_def lit(3) by simp
  have "\<not> digit_or_comma (of_char CHR ''E'')"
    by (simp add: digit_or_comma_def is_digit_def decimal_zeros_def)
  moreover have "\<forall>c \<in> set run. digit_or_comma c"
    unfolding run_def by (auto dest: set_takeWhileD)
  ultimately have "hd lit \<notin> set run"
    using lit(2) by auto
  with lit(1) have "replace lit [] (lit @ run) = run"
    by (rule replace_own_prefix)
  then have "new_exp s = Inr (replace [of_char CHR '',''] [] run)"
    using m by (simp add: new_exp_def lit_def)
  then show ?thesis
    unfolding run_def by (simp only: replace_single)
qed

lemma new_exp_no_match:
  "(\<forall>i. \<not> matches_at (py ''Electorate: '') digit_or_comma s i)
     \<longleftrightarrow> new_exp s = Inl AttributeError"
  using re_search_None [of "py ''Electorate: ''" digit_or_comma s]
  by (auto simp add: new_exp_def split: option.splits)

lemma new_exp_digits: "new_exp s = Inr figure \<Longrightarrow> list_all is_digit figure"
  using new_exp_Inr [of s figure] by (auto simp add: list_all_iff)

subsection \<open>The rows of the assembled frame\<close>

lemma six_columns:
  assumes "map fst cols = six_labels"
  obtains v1 v2 v3 v4 v5 v6 where
    "cols = [(''names'', v1), (''candidates'', v2), (''parties'', v3), (''votes'', v4),
             (''percent'', v5), (''electorate'', v6)]"
  using assms by (auto simp add: six_labels_def map_eq_Cons_conv)

lemma upt_shift: "[0..<n + m] = [0..<n] @ map (\<lambda>i. i + n) [0..<m]"
proof -
  have "[0..<n + m] = [0..<n] @ [n..<n + m]"
    using upt_add_eq_append [of 0 n m] by simp
  moreover have "map (\<lambda>i. i + n) [0..<m] = [n..<n + m]"
    using map_add_upt [of n m] by (simp only: add.commute)
  ultimately show ?thesis
    by (simp only:)
qed

lemma rows_concat_six:
  assumes "map fst (columns a) = six_labels" "map fst (columns b) = six_labels"
    and "full_columns a"
  shows "rows (pd_concat a b) = rows a @ rows b"
proof -
  from assms(1) obtain v1 v2 v3 v4 v5 v6 where
    a: "columns a = [(''names'', v1), (''candidates'', v2), (''parties'', v3), (''votes'', v4),
             (''percent'', v5), (''electorate'', v6)]"
    by (rule six_columns)
  from assms(2) obtain w1 w2 w3 w4 w5 w6 where
    b: "columns b = [(''names'', w1), (''candidates'', w2), (''parties'', w3), (''votes'', w4),
             (''percent'', w5), (''electorate'', w6)]"
    by (rule six_columns)
  let ?n = "length (index a)" and ?m = "length (index b)"
  have len: "length v1 = ?n" "length v2 = ?n" "length v3 = ?n" "length v4 = ?n"
    "length v5 = ?n" "length v6 = ?n"
    using assms(3) by (simp_all add: full_columns_def a)
  have cols: "columns (pd_concat a b) =
      [(''names'', v1 @ w1), (''candidates'', v2 @ w2), (''parties'', v3 @ w3),
       (''votes'', v4 @ w4), (''percent'', v5 @ w5), (''electorate'', v6 @ w6)]"
    by (simp add: pd_concat_def Let_def column_or_nan_def a b)
  have "length (index (pd_concat a b)) = ?n + ?m"
    by (simp add: pd_concat_def Let_def)
  then have ix: "[0..<length (index (pd_concat a b))] = [0..<?n] @ map (\<lambda>i. i + ?n) [0..<?m]"
    by (simp only: upt_shift)
  have "map (\<lambda>i. [(v1 @ w1) ! i, (v2 @ w2) ! i, (v3 @ w3) ! i, (v4 @ w4) ! i, (v5 @ w5) ! i,
                   (v6 @ w6) ! i]) [0..<?n]
      = map (\<lambda>i. [v1 ! i, v2 ! i, v3 ! i, v4 ! i, v5 ! i, v6 ! i]) [0..<?n]"
    by (rule map_cong) (simp_all add: nth_append len)
  moreover have "map (\<lambda>i. [(v1 @ w1) ! (i + ?n), (v2 @ w2) ! (i + ?n), (v3 @ w3) ! (i + ?n),
                            (v4 @ w4) ! (i + ?n), (v5 @ w5) ! (i + ?n), (v6 @ w6) ! (i + ?n)])
                    [0..<?m]
      = map (\<lambda>i. [w1 ! i, w2 ! i, w3 ! i, w4 ! i, w5 ! i, w6 ! i]) [0..<?m]"
    by (rule map_cong) (simp_all add: nth_append len)
  ultimately show ?thesis
    unfolding rows_def ix cols a b by (simp add: comp_def)
qed

lemma pd_concat_initial:
  assumes "map fst (columns f) = six_labels"
  shows "pd_concat (DataFrame five_labels) f = f"
proof -
  from assms obtain w1 w2 w3 w4 w5 w6 where
    "columns f = [(''names'', w1), (''candidates'', w2), (''parties'', w3), (''votes'', w4),
             (''percent'', w5), (''electorate'', w6)]"
    by (rule six_columns)
  then show ?thesis
    by (simp add: pd_concat_def Let_def column_or_nan_def DataFrame_def five_labels_def)
qed

lemma to_pandas_rows:
  assumes "equal_lengths c"
  obtains f where "to_pandas c = Inr f" "rows f = record_rows c"
proof -
  let ?f = "\<lparr>columns =
      [(''names'', replicate (length (candidates c)) (Str (name c))),
       (''candidates'', map Str (candidates c)),
       (''parties'', map Str (parties c)),
       (''votes'', map Str (votes c)),
       (''percent'', map Str (percent c)),
       (''electorate'', replicate (length (candidates c)) (electorate c))],
      index = [0..<length (candidates c)]\<rparr>"
  have "to_pandas c = Inr ?f"
    using assms by (intro to_pandas_ok) (simp_all add: equal_lengths_def)
  moreover have "rows ?f = record_rows c"
    using assms by (simp add: rows_def record_rows_def equal_lengths_def)
  ultimately show ?thesis
    using that by blast
qed

lemma assemble_rows_six:
  "map fst (columns df) = six_labels \<Longrightarrow> full_columns df \<Longrightarrow> assemble df cs = Inr out
     \<Longrightarrow> rows out = rows df @ concat (map record_rows (filter equal_lengths cs))"
proof (induction cs arbitrary: df)
  case Nil
  then show ?case by simp
next
  case (Cons c cs)
  show ?case
  proof (cases "equal_lengths c")
    case True
    then obtain f where f: "to_pandas c = Inr f" "rows f = record_rows c"
      by (rule to_pandas_rows)
    have labels: "map fst (columns (pd_concat df f)) = six_labels"
      unfolding pd_concat_labels Cons.prems(1) to_pandas_labels [OF f(1)] by (rule six_after_six)
    have full: "full_columns (pd_concat df f)"
      using Cons.prems(2) to_pandas_full [OF f(1)] by (rule pd_concat_full)
    have "assemble (pd_concat df f) cs = Inr out"
      using Cons.prems(3) f(1) by simp
    from Cons.IH [OF labels full this] show ?thesis
      using True f(2) rows_concat_six [OF Cons.prems(1) to_pandas_labels [OF f(1)] Cons.prems(2)]
      by simp
  next
    case False
    then have "to_pandas c = Inl ValueError"
      using to_pandas_bad [of c] by (simp add: equal_lengths_def)
    then have "assemble df cs = Inr out"
      using Cons.prems(3) by simp
    from Cons.IH [OF Cons.prems(1,2) this] show ?thesis
      using False by simp
  qed
qed

lemma assemble_rows:
  "assemble (DataFrame five_labels) cs = Inr out
     \<Longrightarrow> rows out = concat (map record_rows (filter equal_lengths cs))"
proof (induction cs)
  case Nil
  then show ?case by (auto simp add: rows_def DataFrame_def)
next
  case (Cons c cs)
  show ?case
  proof (cases "equal_lengths c")
    case True
    then obtain f where f: "to_pandas c = Inr f" "rows f = record_rows c"
      by (rule to_pandas_rows)
    have "assemble f cs = Inr out"
      using Cons.prems f(1) pd_concat_initial [OF to_pandas_labels [OF f(1)]] by simp
    from assemble_rows_six [OF to_pandas_labels [OF f(1)] to_pandas_full [OF f(1)] this]
    show ?thesis
      using True f(2) by simp
  next
    case False
    then have "to_pandas c = Inl ValueError"
      using to_pandas_bad [of c] by (simp add: equal_lengths_def)
    then have "assemble (DataFrame five_labels) cs = Inr out"
      using Cons.prems by simp
    from Cons.IH [OF this] show ?thesis
      using False by simp
  qed
qed

lemma record_rows_name:
  "map (\<lambda>r. str_replace_cell old new (hd r) # tl r) (record_rows c)
     = record_rows (c\<lparr>name := replace old new (name c)\<rparr>)"
  by (simp add: record_rows_def)

lemma strip_names_rows:
  assumes "strip_names df0 = Inr df"
    and "map fst (columns df0) = six_labels \<or> map fst (columns df0) = five_labels"
    and "full_columns df0"
  shows "rows df = map (\<lambda>r. str_replace_cell (py '','') [] (hd r) # tl r) (rows df0)"
proof -
  let ?f = "str_replace_cell (py '','') []"
  from assms(2) obtain v1 rest where cols: "columns df0 = (''names'', v1) # rest"
    by (auto simp add: six_labels_def five_labels_def map_eq_Cons_conv)
  then have df: "df = df0\<lparr>columns := (''names'', map ?f v1) # rest\<rparr>"
    using assms(1) by (auto simp add: strip_names_def)
  have len: "length v1 = length (index df0)"
    using assms(3) by (simp add: full_columns_def cols)
  have "map (\<lambda>i. map ?f v1 ! i # map (\<lambda>(k, vs). vs ! i) rest) [0..<length (index df0)]
      = map (\<lambda>i. ?f (v1 ! i) # map (\<lambda>(k, vs). vs ! i) rest) [0..<length (index df0)]"
    by (rule map_cong) (simp_all add: len)
  then show ?thesis
    unfolding df by (simp add: rows_def cols comp_def)
qed

lemma map_zip_snd:
  "length xs = length ys \<Longrightarrow> map (\<lambda>(x, y). g y) (zip xs ys) = map g ys"
  by (induction xs ys rule: list_induct2) simp_all

lemma to_csv_plain:
  "to_csv df False False = concat (map (\<lambda>r. csv_line (map cell_text r)) (rows df))"
proof -
  have "length (index df) = length (rows df)"
    by (simp add: rows_def)
  then show ?thesis
    by (simp add: to_csv_def map_zip_snd)
qed

subsection \<open>The side lists over all rows\<close>

lemma collect_rows_ok:
  "map (\<lambda>p. new_exp (text_of p)) (concat (map (find_all ''p'') trs)) = map Inr figures
     \<Longrightarrow> collect_rows (ns, es) trs
           = Inr (ns @ concat (map (find_all ''b'') trs), es @ figures)"
proof (induction trs arbitrary: ns es figures)
  case Nil
  then show ?case by simp
next
  case (Cons tr trs)
  let ?f = "\<lambda>p. new_exp (text_of p)"
  have "map Inr figures = map ?f (find_all ''p'' tr) @ map ?f (concat (map (find_all ''p'') trs))"
    using Cons.prems by simp
  then obtain f1 f2 where figures: "figures = f1 @ f2"
    and f1: "map ?f (find_all ''p'' tr) = map Inr f1"
    and f2: "map ?f (concat (map (find_all ''p'') trs)) = map Inr f2"
    unfolding map_eq_append_conv by metis
  have "collect_electorates es (find_all ''p'' tr) = Inr (es @ f1)"
    using f1 by (rule collect_electorates_ok)
  then have "collect_rows (ns, es) (tr # trs) = collect_rows (ns @ find_all ''b'' tr, es @ f1) trs"
    by simp
  also have "\<dots> = Inr ((ns @ find_all ''b'' tr) @ concat (map (find_all ''b'') trs),
                       (es @ f1) @ f2)"
    using f2 by (rule Cons.IH)
  finally show ?case
    by (simp add: figures)
qed

lemma no_match_bounded:
  "(\<forall>i. \<not> matches_at lit cls s i)
     \<longleftrightarrow> list_all (\<lambda>i. \<not> matches_at lit cls s i) [0..<length s]"
proof
  assume "\<forall>i. \<not> matches_at lit cls s i"
  then show "list_all (\<lambda>i. \<not> matches_at lit cls s i) [0..<length s]"
    by (simp add: list_all_iff)
next
  assume h: "list_all (\<lambda>i. \<not> matches_at lit cls s i) [0..<length s]"
  show "\<forall>i. \<not> matches_at lit cls s i"
  proof
    fix i
    show "\<not> matches_at lit cls s i"
    proof (cases "i < length s")
      case True
      then show ?thesis
        using h by (simp add: list_all_iff)
    next
      case False
      then show ?thesis
        using matches_at_bound [of lit cls s i] by blast
    qed
  qed
qed

lemma none_before_bounded:
  "(\<forall>j<i. \<not> matches_at lit cls s j) \<longleftrightarrow> list_all (\<lambda>j. \<not> matches_at lit cls s j) [0..<i]"
  by (auto simp add: list_all_iff)


section \<open>The claims\<close>

text \<open>
  C2. A constituency whose four sequences have the same length is converted: the
  frame has one row for each candidate, in order, and every row holds the name of
  the constituency first and its electorate last.
\<close>

theorem to_pandas_equal_lengths:
  assumes "length (parties c) = length (candidates c)"
    and "length (votes c) = length (candidates c)"
    and "length (percent c) = length (candidates c)"
  shows "\<exists>df. to_pandas c = Inr df
           \<and> length (rows df) = length (candidates c)
           \<and> rows df = map (\<lambda>i. [Str (name c), Str (candidates c ! i), Str (parties c ! i),
                                   Str (votes c ! i), Str (percent c ! i), electorate c])
                          [0..<length (candidates c)]"
proof -
  let ?df = "\<lparr>columns =
      [(''names'', replicate (length (candidates c)) (Str (name c))),
       (''candidates'', map Str (candidates c)),
       (''parties'', map Str (parties c)),
       (''votes'', map Str (votes c)),
       (''percent'', map Str (percent c)),
       (''electorate'', replicate (length (candidates c)) (electorate c))],
      index = [0..<length (candidates c)]\<rparr>"
  have "to_pandas c = Inr ?df"
    using assms by (rule to_pandas_ok)
  moreover have "rows ?df = map (\<lambda>i. [Str (name c), Str (candidates c ! i), Str (parties c ! i),
                                   Str (votes c ! i), Str (percent c ! i), electorate c])
                          [0..<length (candidates c)]"
    using assms by (simp add: rows_def)
  moreover have "length (rows ?df) = length (candidates c)"
    by (simp add: rows_def)
  ultimately show ?thesis
    by blast
qed

theorem to_pandas_equal_lengths_witness:
  "length (parties sample_seat) = length (candidates sample_seat)
   \<and> length (votes sample_seat) = length (candidates sample_seat)
   \<and> length (percent sample_seat) = length (candidates sample_seat)
   \<and> (\<exists>df. to_pandas sample_seat = Inr df
           \<and> length (rows df) = 2
           \<and> rows df = [[Str (py ''Anytown''), Str (py ''J. Doe''), Str (py ''Indep''), Str (py ''1234''), Str (py ''22.2''),
                         Str (py ''54321'')],
                        [Str (py ''Anytown''), Str (py ''R. Roe''), Str (py ''Lab''), Str (py ''4321''), Str (py ''77.8''),
                         Str (py ''54321'')]])"
proof -
  have h: "length (parties sample_seat) = length (candidates sample_seat)"
    "length (votes sample_seat) = length (candidates sample_seat)"
    "length (percent sample_seat) = length (candidates sample_seat)"
    by (simp_all add: sample_seat_def)
  have n: "[0..<length (candidates sample_seat)] = [0, 1]"
    by (simp add: sample_seat_def upt_rec)
  from to_pandas_equal_lengths [OF h] obtain df where
    "to_pandas sample_seat = Inr df" "length (rows df) = length (candidates sample_seat)"
    "rows df = map (\<lambda>i. [Str (name sample_seat), Str (candidates sample_seat ! i),
                          Str (parties sample_seat ! i), Str (votes sample_seat ! i),
                          Str (percent sample_seat ! i), electorate sample_seat])
                 [0..<length (candidates sample_seat)]"
    by blast
  then have "to_pandas sample_seat = Inr df \<and> length (rows df) = 2
           \<and> rows df = [[Str (py ''Anytown''), Str (py ''J. Doe''), Str (py ''Indep''), Str (py ''1234''), Str (py ''22.2''),
                         Str (py ''54321'')],
                        [Str (py ''Anytown''), Str (py ''R. Roe''), Str (py ''Lab''), Str (py ''4321''), Str (py ''77.8''),
                         Str (py ''54321'')]]"
    unfolding n by (simp add: sample_seat_def)
  with h show ?thesis
    by blast
qed

text \<open>
  C3. A constituency whose four sequences differ in length makes the conversion
  raise \<^verbatim>\<open>ValueError\<close>; the assembly loop then goes on with the frame it had, so
  that the result is the one obtained without this constituency, and the loop ends
  with a frame. Started as \<^verbatim>\<open>parse\<close> starts it, the loop ends with a frame whose
  rows are those of the constituencies before and after this one that have
  sequences of equal length, in their order: this constituency gives no row, and
  the others are converted as if it were not there.
\<close>

theorem unequal_lengths_skipped:
  assumes "\<not> (length (parties c) = length (candidates c)
             \<and> length (votes c) = length (candidates c)
             \<and> length (percent c) = length (candidates c))"
  shows "to_pandas c = Inl ValueError
         \<and> assemble df (before @ c # after) = assemble df (before @ after)
         \<and> (\<exists>out. assemble df (before @ c # after) = Inr out)
         \<and> (\<exists>out. assemble (DataFrame [''names'', ''candidates'', ''parties'', ''votes'',
                                        ''percent''])
                     (before @ c # after) = Inr out
                 \<and> rows out = concat (map record_rows (filter equal_lengths before))
                              @ concat (map record_rows (filter equal_lengths after)))"
proof -
  have bad: "to_pandas c = Inl ValueError"
    using assms by (rule to_pandas_bad)
  have skip: "assemble df (before @ c # after) = assemble df (before @ after)"
    using bad by (rule assemble_skip)
  have ends: "\<exists>out. assemble df (before @ c # after) = Inr out"
    by (rule assemble_Inr)
  obtain out where out: "assemble (DataFrame five_labels) (before @ c # after) = Inr out"
    using assemble_Inr by blast
  have "\<not> equal_lengths c"
    using assms by (simp add: equal_lengths_def)
  then have "filter equal_lengths (before @ c # after)
      = filter equal_lengths before @ filter equal_lengths after"
    by simp
  then have "rows out = concat (map record_rows (filter equal_lengths before))
                       @ concat (map record_rows (filter equal_lengths after))"
    using assemble_rows [OF out] by simp
  with out have "\<exists>out. assemble (DataFrame [''names'', ''candidates'', ''parties'', ''votes'',
                                        ''percent''])
                     (before @ c # after) = Inr out
                 \<and> rows out = concat (map record_rows (filter equal_lengths before))
                              @ concat (map record_rows (filter equal_lengths after))"
    unfolding five_labels_def by blast
  with bad skip ends show ?thesis
    by (intro conjI)
qed

theorem unequal_lengths_skipped_witness:
  "\<not> (length (parties short_seat) = length (candidates short_seat)
       \<and> length (votes short_seat) = length (candidates short_seat)
       \<and> length (percent short_seat) = length (candidates short_seat))
   \<and> to_pandas short_seat = Inl ValueError
   \<and> assemble (DataFrame five_labels) ([sample_seat] @ short_seat # [sample_seat])
       = assemble (DataFrame five_labels) ([sample_seat] @ [sample_seat])
   \<and> (\<exists>out. assemble (DataFrame [''names'', ''candidates'', ''parties'', ''votes'', ''percent''])
               ([sample_seat] @ short_seat # [sample_seat]) = Inr out
           \<and> rows out =
               [[Str (py ''Anytown''), Str (py ''J. Doe''), Str (py ''Indep''), Str (py ''1234''),
                 Str (py ''22.2''), Str (py ''54321'')],
                [Str (py ''Anytown''), Str (py ''R. Roe''), Str (py ''Lab''), Str (py ''4321''),
                 Str (py ''77.8''), Str (py ''54321'')],
                [Str (py ''Anytown''), Str (py ''J. Doe''), Str (py ''Indep''), Str (py ''1234''),
                 Str (py ''22.2''), Str (py ''54321'')],
                [Str (py ''Anytown''), Str (py ''R. Roe''), Str (py ''Lab''), Str (py ''4321''),
                 Str (py ''77.8''), Str (py ''54321'')]])"
proof -
  have h: "\<not> (length (parties short_seat) = length (candidates short_seat)
       \<and> length (votes short_seat) = length (candidates short_seat)
       \<and> length (percent short_seat) = length (candidates short_seat))"
    by (simp add: short_seat_def)
  have r: "concat (map record_rows (filter equal_lengths [sample_seat])) =
               [[Str (py ''Anytown''), Str (py ''J. Doe''), Str (py ''Indep''), Str (py ''1234''),
                 Str (py ''22.2''), Str (py ''54321'')],
                [Str (py ''Anytown''), Str (py ''R. Roe''), Str (py ''Lab''), Str (py ''4321''),
                 Str (py ''77.8''), Str (py ''54321'')]]"
    by code_simp
  note t = unequal_lengths_skipped [OF h, of "DataFrame five_labels" "[sample_seat]" "[sample_seat]"]
  from t have t1: "to_pandas short_seat = Inl ValueError"
    by (rule conjunct1)
  from t have t2: "assemble (DataFrame five_labels) ([sample_seat] @ short_seat # [sample_seat])
       = assemble (DataFrame five_labels) ([sample_seat] @ [sample_seat])"
    by (elim conjE)
  from t obtain out where
    "assemble (DataFrame [''names'', ''candidates'', ''parties'', ''votes'', ''percent''])
       ([sample_seat] @ short_seat # [sample_seat]) = Inr out"
    "rows out = concat (map record_rows (filter equal_lengths [sample_seat]))
                @ concat (map record_rows (filter equal_lengths [sample_seat]))"
    by (elim conjE exE)
  then have t4: "\<exists>out. assemble (DataFrame [''names'', ''candidates'', ''parties'', ''votes'',
                                      ''percent''])
               ([sample_seat] @ short_seat # [sample_seat]) = Inr out
           \<and> rows out =
               [[Str (py ''Anytown''), Str (py ''J. Doe''), Str (py ''Indep''), Str (py ''1234''),
                 Str (py ''22.2''), Str (py ''54321'')],
                [Str (py ''Anytown''), Str (py ''R. Roe''), Str (py ''Lab''), Str (py ''4321''),
                 Str (py ''77.8''), Str (py ''54321'')],
                [Str (py ''Anytown''), Str (py ''J. Doe''), Str (py ''Indep''), Str (py ''1234''),
                 Str (py ''22.2''), Str (py ''54321'')],
                [Str (py ''Anytown''), Str (py ''R. Roe''), Str (py ''Lab''), Str (py ''4321''),
                 Str (py ''77.8''), Str (py ''54321'')]]"
    unfolding r by simp
  from h t1 t2 t4 show ?thesis
    by (intro conjI)
qed

text \<open>
  C1 (as amended). The cells of a nested table are gone through row by row with a
  count that starts at 0 and grows by one with every cell; the cell at count \<open>i\<close> is
  appended to the candidates when \<open>i mod 4 = 0\<close>, with every comma and every
  asterisk removed, to the parties when \<open>i mod 4 = 1\<close> and to the votes when
  \<open>i mod 4 = 2\<close>, with every comma removed, and to the percentages when
  \<open>i mod 4 = 3\<close>, with every comma and every \<^verbatim>\<open>%\<close> sign removed, wherever it
  stands in the text. For a table whose rows hold plain cells, the cells gone
  through are those of the first row, then those of the second, and so on.
\<close>

theorem decode_table_dispatch:
  "decode_table c table =
     c\<lparr>candidates := candidates c
          @ [filter (\<lambda>x. x \<noteq> of_char CHR '','' \<and> x \<noteq> of_char CHR ''*'') (text_of (cells_of table ! i)).
               i \<leftarrow> [0..<length (cells_of table)], i mod 4 = 0],
       parties := parties c
          @ [filter (\<lambda>x. x \<noteq> of_char CHR '','') (text_of (cells_of table ! i)).
               i \<leftarrow> [0..<length (cells_of table)], i mod 4 = 1],
       votes := votes c
          @ [filter (\<lambda>x. x \<noteq> of_char CHR '','') (text_of (cells_of table ! i)).
               i \<leftarrow> [0..<length (cells_of table)], i mod 4 = 2],
       percent := percent c
          @ [filter (\<lambda>x. x \<noteq> of_char CHR '','' \<and> x \<noteq> of_char CHR ''%'') (text_of (cells_of table ! i)).
               i \<leftarrow> [0..<length (cells_of table)], i mod 4 = 3]\<rparr>
   \<and> fst (decode_rows (0, c) (find_all ''tr'' table)) = length (cells_of table)
   \<and> cells_of (Tag t (map (\<lambda>r. Tag ''tr'' (map td r)) rs)) = map td (concat rs)"
proof (intro conjI)
  show "decode_table c table =
     c\<lparr>candidates := candidates c
          @ [filter (\<lambda>x. x \<noteq> of_char CHR '','' \<and> x \<noteq> of_char CHR ''*'') (text_of (cells_of table ! i)).
               i \<leftarrow> [0..<length (cells_of table)], i mod 4 = 0],
       parties := parties c
          @ [filter (\<lambda>x. x \<noteq> of_char CHR '','') (text_of (cells_of table ! i)).
               i \<leftarrow> [0..<length (cells_of table)], i mod 4 = 1],
       votes := votes c
          @ [filter (\<lambda>x. x \<noteq> of_char CHR '','') (text_of (cells_of table ! i)).
               i \<leftarrow> [0..<length (cells_of table)], i mod 4 = 2],
       percent := percent c
          @ [filter (\<lambda>x. x \<noteq> of_char CHR '','' \<and> x \<noteq> of_char CHR ''%'') (text_of (cells_of table ! i)).
               i \<leftarrow> [0..<length (cells_of table)], i mod 4 = 3]\<rparr>"
    by (rule constituency.equality)
       (simp_all add: decode_table_fields replace_single cong: if_cong)
  show "fst (decode_rows (0, c) (find_all ''tr'' table)) = length (cells_of table)"
    by (simp add: decode_rows_items decode_items_count cells_of_def)
  show "cells_of (Tag t (map (\<lambda>r. Tag ''tr'' (map td r)) rs)) = map td (concat rs)"
    by (rule cells_of_plain_table)
qed

theorem trailing_percent_counterexample:
  "percent (decode_table (Constituency (py ''Anytown'')) swing_table)
     \<noteq> [spec_strip_trailing_percent (replace (py '','') [] (text_of (cells_of swing_table ! 3)))]
   \<and> percent (decode_table (Constituency (py ''Anytown'')) swing_table) = [py ''45.6 of 100'']
   \<and> spec_strip_trailing_percent (replace (py '','') [] (text_of (cells_of swing_table ! 3)))
       = py ''45.6% of 100''"
  by code_simp

text \<open>
  C4 (as amended). The results table is the second table of the document in
  document order, at whatever depth it lies, also inside the first table; a document
  with fewer than two tables in all makes the extraction fail with \<^verbatim>\<open>IndexError\<close>
  at once.
\<close>

theorem big_table_second_in_document:
  "big_table_of soup =
     (if length (find_all ''table'' soup) < 2 then Inl IndexError
      else Inr (find_all ''table'' soup ! 1))
   \<and> (length (find_all ''table'' soup) < 2 \<longrightarrow> parse_soup soup = Inl IndexError)"
proof -
  have "big_table_of soup =
     (if length (find_all ''table'' soup) < 2 then Inl IndexError
      else Inr (find_all ''table'' soup ! 1))"
    by (cases "find_all ''table'' soup" rule: list.exhaust [case_product list.exhaust])
       (simp_all add: big_table_of_def split: list.splits)
  then show ?thesis
    by (simp add: parse_soup_def then_do_def)
qed

theorem big_table_second_in_document_witness:
  "length (find_all ''table'' one_table) < 2
   \<and> big_table_of one_table = Inl IndexError
   \<and> parse_soup one_table = Inl IndexError
   \<and> big_table_of anytown = Inr (find_all ''table'' anytown ! 1)"
proof -
  have h: "length (find_all ''table'' one_table) < 2"
    by code_simp
  have k: "\<not> length (find_all ''table'' anytown) < 2"
    by code_simp
  show ?thesis
    using h k big_table_second_in_document [of one_table]
      big_table_second_in_document [of anytown]
    by simp
qed

theorem top_level_counterexample:
  "length (spec_top_level_tables nested_only) = 1
   \<and> parse_soup nested_only =
       Inr \<lparr>columns = [(''names'', []), (''candidates'', []), (''parties'', []), (''votes'', []),
                        (''percent'', [])],
            index = []\<rparr>"
  by code_simp

text \<open>
  C5 (as amended). Every paragraph of every row of the results table is searched
  for \<^verbatim>\<open>Electorate: \<close> followed by one or more digits or commas (a digit being any
  Unicode decimal digit). When every paragraph has a match, the figures are
  appended to the electorates in the order of the paragraphs, rows first. The
  figure of a paragraph is taken at the leftmost position of its text where
  \<^verbatim>\<open>Electorate: \<close> is followed by a digit or a comma, wherever in the text that is:
  it is the longest run of digits and commas after the twelve characters of
  \<^verbatim>\<open>Electorate: \<close>, with its commas removed, and holds digits only. A paragraph
  where the pattern matches at no position is not passed over: it raises
  \<^verbatim>\<open>AttributeError\<close>, which ends the whole extraction.
\<close>

theorem electorate_collection:
  "(map (\<lambda>p. new_exp (text_of p)) ps = map Inr figures
      \<longrightarrow> collect_electorates es ps = Inr (es @ figures))
   \<and> (map (\<lambda>p. new_exp (text_of p)) (concat (map (find_all ''p'') trs)) = map Inr figures
      \<longrightarrow> collect_rows (ns, es) trs
            = Inr (ns @ concat (map (find_all ''b'') trs), es @ figures))
   \<and> (matches_at (py ''Electorate: '') digit_or_comma s i
        \<and> (\<forall>j<i. \<not> matches_at (py ''Electorate: '') digit_or_comma s j)
      \<longrightarrow> new_exp s = Inr (filter (\<lambda>x. x \<noteq> of_char CHR '','')
                             (takeWhile digit_or_comma (drop (i + 12) s)))
          \<and> list_all is_digit (filter (\<lambda>x. x \<noteq> of_char CHR '','')
                                 (takeWhile digit_or_comma (drop (i + 12) s))))
   \<and> (p \<in> set ps \<and> (\<forall>i. \<not> matches_at (py ''Electorate: '') digit_or_comma (text_of p) i)
      \<longrightarrow> collect_electorates es ps = Inl AttributeError)
   \<and> (big_table_of soup = Inr big_table \<and> tr \<in> set (find_all ''tr'' big_table)
        \<and> q \<in> set (find_all ''p'' tr)
        \<and> (\<forall>i. \<not> matches_at (py ''Electorate: '') digit_or_comma (text_of q) i)
      \<longrightarrow> parse_soup soup = Inl AttributeError)"
proof (intro conjI impI)
  assume "map (\<lambda>p. new_exp (text_of p)) ps = map Inr figures"
  then show "collect_electorates es ps = Inr (es @ figures)"
    by (rule collect_electorates_ok)
next
  assume "map (\<lambda>p. new_exp (text_of p)) (concat (map (find_all ''p'') trs)) = map Inr figures"
  then show "collect_rows (ns, es) trs
            = Inr (ns @ concat (map (find_all ''b'') trs), es @ figures)"
    by (rule collect_rows_ok)
next
  assume a: "matches_at (py ''Electorate: '') digit_or_comma s i
        \<and> (\<forall>j<i. \<not> matches_at (py ''Electorate: '') digit_or_comma s j)"
  then show e: "new_exp s = Inr (filter (\<lambda>x. x \<noteq> of_char CHR '','')
                             (takeWhile digit_or_comma (drop (i + 12) s)))"
    using new_exp_leftmost [of s i] by blast
  then show "list_all is_digit (filter (\<lambda>x. x \<noteq> of_char CHR '','')
                                 (takeWhile digit_or_comma (drop (i + 12) s)))"
    by (rule new_exp_digits)
next
  assume "p \<in> set ps \<and> (\<forall>i. \<not> matches_at (py ''Electorate: '') digit_or_comma (text_of p) i)"
  then have "p \<in> set ps" "new_exp (text_of p) = Inl AttributeError"
    using new_exp_no_match [of "text_of p"] by blast+
  then show "collect_electorates es ps = Inl AttributeError"
    by (rule collect_electorates_fail)
next
  assume a: "big_table_of soup = Inr big_table \<and> tr \<in> set (find_all ''tr'' big_table)
        \<and> q \<in> set (find_all ''p'' tr)
        \<and> (\<forall>i. \<not> matches_at (py ''Electorate: '') digit_or_comma (text_of q) i)"
  then have "new_exp (text_of q) = Inl AttributeError"
    using new_exp_no_match [of "text_of q"] by blast
  with a have "collect_rows ([], []) (find_all ''tr'' big_table) = Inl AttributeError"
    using collect_rows_fail [of tr "find_all ''tr'' big_table" q "[]" "[]"] by blast
  with a show "parse_soup soup = Inl AttributeError"
    by (simp add: parse_soup_def then_do_def)
qed

theorem electorate_collection_witness:
  "collect_electorates [py ''2000''] [late_figure, arabic_figure]
       = Inr [py ''2000'', py ''54321'', [1637, 1636, 1635, 1634, 1633]]
   \<and> collect_rows ([], [py ''2000''])
        [Tag ''tr'' [Tag ''td'' [bold ''Anytown'', late_figure]],
         Tag ''tr'' [Tag ''td'' [bold ''Bury'', arabic_figure]]]
       = Inr ([bold ''Anytown'', bold ''Bury''],
              [py ''2000'', py ''54321'', [1637, 1636, 1635, 1634, 1633]])
   \<and> text_of late_figure = py ''Registered. Electorate: 54,321 (1997)''
   \<and> matches_at (py ''Electorate: '') digit_or_comma (text_of late_figure) 12
   \<and> list_all (\<lambda>j. \<not> matches_at (py ''Electorate: '') digit_or_comma (text_of late_figure) j)
        [0..<12]
   \<and> new_exp (text_of late_figure) = Inr (py ''54321'')
   \<and> list_all is_digit (py ''54321'')
   \<and> matches_at (py ''Electorate: '') digit_or_comma (text_of arabic_figure) 0
   \<and> new_exp (text_of arabic_figure) = Inr [1637, 1636, 1635, 1634, 1633]
   \<and> list_all is_digit [1637, 1636, 1635, 1634, 1633]
   \<and> (\<forall>i. \<not> matches_at (py ''Electorate: '') digit_or_comma
              (text_of (para ''Results by constituency'')) i)
   \<and> collect_electorates [] [para ''Results by constituency'', para ''Electorate: 54,321'']
       = Inl AttributeError
   \<and> parse_soup with_note = Inl AttributeError"
proof -
  let ?lit = "py ''Electorate: ''"
  let ?n = "para ''Results by constituency''"
  let ?e = "para ''Electorate: 54,321''"
  let ?tr = "Tag ''tr'' [Tag ''td'' [?n]]"
  let ?trs = "[Tag ''tr'' [Tag ''td'' [bold ''Anytown'', late_figure]],
               Tag ''tr'' [Tag ''td'' [bold ''Bury'', arabic_figure]]]"
  let ?figures = "[py ''54321'', [1637, 1636, 1635, 1634, 1633]]"
  have shown: "text_of late_figure = py ''Registered. Electorate: 54,321 (1997)''"
    by code_simp
  have h1: "map (\<lambda>p. new_exp (text_of p)) [late_figure, arabic_figure] = map Inr ?figures"
    by code_simp
  have h2: "map (\<lambda>p. new_exp (text_of p)) (concat (map (find_all ''p'') ?trs)) = map Inr ?figures"
    by code_simp
  have b: "concat (map (find_all ''b'') ?trs) = [bold ''Anytown'', bold ''Bury'']"
    by code_simp
  have m: "matches_at ?lit digit_or_comma (text_of late_figure) 12"
    by code_simp
  have before: "list_all (\<lambda>j. \<not> matches_at ?lit digit_or_comma (text_of late_figure) j) [0..<12]"
    by code_simp
  then have l: "\<forall>j<12. \<not> matches_at ?lit digit_or_comma (text_of late_figure) j"
    unfolding none_before_bounded .
  have run: "filter (\<lambda>x. x \<noteq> of_char CHR '','')
               (takeWhile digit_or_comma (drop (12 + 12) (text_of late_figure))) = py ''54321''"
    by code_simp
  have m': "matches_at ?lit digit_or_comma (text_of arabic_figure) 0"
    by code_simp
  have l': "\<forall>j<0. \<not> matches_at ?lit digit_or_comma (text_of arabic_figure) j"
    by simp
  have run': "filter (\<lambda>x. x \<noteq> of_char CHR '','')
               (takeWhile digit_or_comma (drop (0 + 12) (text_of arabic_figure)))
             = [1637, 1636, 1635, 1634, 1633]"
    by code_simp
  have "list_all (\<lambda>i. \<not> matches_at ?lit digit_or_comma (text_of ?n) i) [0..<length (text_of ?n)]"
    by code_simp
  then have none: "\<forall>i. \<not> matches_at ?lit digit_or_comma (text_of ?n) i"
    unfolding no_match_bounded .
  have mem: "?n \<in> set [?n, ?e]"
    by simp
  have h4: "big_table_of with_note = Inr (find_all ''table'' with_note ! 1)"
    "?tr \<in> set (find_all ''tr'' (find_all ''table'' with_note ! 1))"
    "?n \<in> set (find_all ''p'' ?tr)"
    by code_simp+
  note first = electorate_collection [where ps = "[late_figure, arabic_figure]"
      and figures = ?figures and es = "[py ''2000'']" and trs = ?trs and ns = "[]"
      and s = "text_of late_figure" and i = 12]
  note second = electorate_collection [where s = "text_of arabic_figure" and i = 0
      and ps = "[?n, ?e]" and es = "[]" and p = ?n
      and soup = with_note and big_table = "find_all ''table'' with_note ! 1"
      and tr = ?tr and q = ?n]
  have c1: "collect_electorates [py ''2000''] [late_figure, arabic_figure]
       = Inr ([py ''2000''] @ ?figures)"
    using first h1 by blast
  have c2: "collect_rows ([], [py ''2000'']) ?trs
       = Inr ([] @ concat (map (find_all ''b'') ?trs), [py ''2000''] @ ?figures)"
    using first h2 by blast
  have c3: "new_exp (text_of late_figure) = Inr (py ''54321'')
      \<and> list_all is_digit (py ''54321'')"
    using first m l unfolding run by blast
  have c4: "new_exp (text_of arabic_figure) = Inr [1637, 1636, 1635, 1634, 1633]
      \<and> list_all is_digit [1637, 1636, 1635, 1634, 1633]"
    using second m' l' unfolding run' by blast
  have c5: "collect_electorates [] [?n, ?e] = Inl AttributeError"
    using second mem none by blast
  have c6: "parse_soup with_note = Inl AttributeError"
    using second h4 none by blast
  from c1 have c1': "collect_electorates [py ''2000''] [late_figure, arabic_figure]
       = Inr [py ''2000'', py ''54321'', [1637, 1636, 1635, 1634, 1633]]"
    by simp
  from c2 have c2': "collect_rows ([], [py ''2000'']) ?trs
       = Inr ([bold ''Anytown'', bold ''Bury''],
              [py ''2000'', py ''54321'', [1637, 1636, 1635, 1634, 1633]])"
    unfolding b by simp
  from c1' c2' shown m before c3 m' c4 none c5 c6 show ?thesis
    by (intro conjI) (elim conjE, assumption)+
qed

theorem no_match_counterexample:
  "re_search (py ''Electorate: '') digit_or_comma (py ''Results by constituency'') = None
   \<and> collect_rows ([], []) (find_all ''tr'' (find_all ''table'' with_note ! 1))
       = Inl AttributeError
   \<and> parse_soup with_note = Inl AttributeError"
  by code_simp

text \<open>
  C6 (as amended). When the three stages before the assembly succeed, \<^verbatim>\<open>parse\<close>
  returns a data frame with one row for each candidate of each converted
  constituency: the rows of the constituencies with sequences of equal length, in
  their order, each row holding the name of the constituency with its commas
  removed, the candidate, the party, the votes, the percentage and the electorate.
  As soon as one constituency is converted the columns are six, in this order:
  names, candidates, parties, votes, percent, electorate; the electorate column of
  the converted constituency is carried into the merged table. Only when no
  constituency is converted does the table keep the five columns it was created
  with, and it then has no rows. When \<^verbatim>\<open>write_to_csv\<close> is set and the file can be
  written, the file written is the one named after the input with its last four
  characters replaced by \<^verbatim>\<open>.csv\<close>, and its text is one line for each row of the
  frame and nothing else: no header line and no index field. When it is not set, no
  file is written.
\<close>

theorem final_table_columns:
  assumes "big_table_of soup = Inr big_table"
    and "collect_rows ([], []) (find_all ''tr'' big_table) = Inr (names, elects)"
    and "build_constituencies names elects 0 [] (find_all ''table'' big_table) = Inr cs"
    and "lxml content = soup"
  shows "\<exists>df. parse_soup soup = Inr df
           \<and> map fst (columns df) =
               (if list_ex equal_lengths cs
                then [''names'', ''candidates'', ''parties'', ''votes'', ''percent'', ''electorate'']
                else [''names'', ''candidates'', ''parties'', ''votes'', ''percent''])
           \<and> length (rows df)
               = sum_list (map (\<lambda>c. length (candidates c)) (filter equal_lengths cs))
           \<and> list_all (\<lambda>r. length r = length (columns df)) (rows df)
           \<and> to_csv df False False = concat (map (\<lambda>r. csv_line (map cell_text r)) (rows df))
           \<and> rows df = concat (map (\<lambda>c. record_rows (c\<lparr>name := replace (py '','') [] (name c)\<rparr>))
                                 (filter equal_lengths cs))
           \<and> parse lxml (Inr content) None file_handle True
               = (Inr df,
                  Some (take (length file_handle - 4) file_handle @ py ''.csv'',
                        concat (map (\<lambda>r. csv_line (map cell_text r)) (rows df))))
           \<and> parse lxml (Inr content) write_error file_handle False = (Inr df, None)"
proof -
  obtain df0 where df0: "assemble (DataFrame five_labels) cs = Inr df0"
    using assemble_Inr by blast
  have labels: "map fst (columns df0) = (if list_ex equal_lengths cs then six_labels else five_labels)"
    using df0 by (rule assemble_labels)
  then have "''names'' \<in> set (map fst (columns df0))"
    by (simp add: six_labels_def five_labels_def)
  from strip_names_Inr [OF this] obtain df where df: "strip_names df0 = Inr df"
    "map fst (columns df) = map fst (columns df0)" "length (index df) = length (index df0)"
    by blast
  have p: "parse_soup soup = Inr df"
    using parse_soup_stages [OF assms(1,2,3) df0] df(1) by simp
  have c: "map fst (columns df) =
               (if list_ex equal_lengths cs
                then [''names'', ''candidates'', ''parties'', ''votes'', ''percent'', ''electorate'']
                else [''names'', ''candidates'', ''parties'', ''votes'', ''percent''])"
    using labels df(2) by (simp add: six_labels_def five_labels_def)
  have n: "length (rows df)
               = sum_list (map (\<lambda>c. length (candidates c)) (filter equal_lengths cs))"
    using assemble_index_len [OF df0] df(3) by (simp add: rows_def DataFrame_def)
  have w: "list_all (\<lambda>r. length r = length (columns df)) (rows df)"
    by (rule rows_lengths)
  have t: "to_csv df False False = concat (map (\<lambda>r. csv_line (map cell_text r)) (rows df))"
    by (rule to_csv_plain)
  have "\<forall>c \<in> set cs. \<forall>f. to_pandas c = Inr f \<longrightarrow> full_columns f"
    using to_pandas_full by blast
  then have full: "full_columns df0"
    using assemble_invariant [where P = full_columns and Q = full_columns,
        OF pd_concat_full _ DataFrame_full df0]
    by blast
  have six_or_five: "map fst (columns df0) = six_labels \<or> map fst (columns df0) = five_labels"
    unfolding labels by simp
  have r0: "rows df0 = concat (map record_rows (filter equal_lengths cs))"
    using df0 by (rule assemble_rows)
  have "rows df = map (\<lambda>r. str_replace_cell (py '','') [] (hd r) # tl r) (rows df0)"
    using df(1) six_or_five full by (rule strip_names_rows)
  also have "\<dots> = concat (map (\<lambda>c. map (\<lambda>r. str_replace_cell (py '','') [] (hd r) # tl r)
                                      (record_rows c))
                           (filter equal_lengths cs))"
    unfolding r0 by (simp only: map_concat map_map comp_def)
  also have "\<dots> = concat (map (\<lambda>c. record_rows (c\<lparr>name := replace (py '','') [] (name c)\<rparr>))
                           (filter equal_lengths cs))"
    by (simp only: record_rows_name)
  finally have r: "rows df
      = concat (map (\<lambda>c. record_rows (c\<lparr>name := replace (py '','') [] (name c)\<rparr>))
                  (filter equal_lengths cs))" .
  have f: "parse lxml (Inr content) None file_handle True
               = (Inr df,
                  Some (take (length file_handle - 4) file_handle @ py ''.csv'',
                        concat (map (\<lambda>r. csv_line (map cell_text r)) (rows df))))"
    using assms(4) p t by (simp add: parse_def)
  have g: "parse lxml (Inr content) write_error file_handle False = (Inr df, None)"
    using assms(4) p by (simp add: parse_def)
  from p c n w t r f g show ?thesis
    by blast
qed

theorem final_table_columns_witness:
  "big_table_of two_seats = Inr (find_all ''table'' two_seats ! 1)
   \<and> collect_rows ([], []) (find_all ''tr'' (find_all ''table'' two_seats ! 1))
       = Inr ([bold ''Combined Universities'', bold ''Bury, North''], [py ''2000'', py ''54321''])
   \<and> build_constituencies [bold ''Combined Universities'', bold ''Bury, North'']
         [py ''2000'', py ''54321''] 0 []
         (find_all ''table'' (find_all ''table'' two_seats ! 1))
       = Inr [short_seat,
              \<lparr>name = py ''Bury, North'', candidates = [py ''Smith John''], parties = [py ''Lab''],
               votes = [py ''1234''], percent = [py ''45.6''], electorate = Str (py ''54321'')\<rparr>]
   \<and> (\<exists>df. parse_soup two_seats = Inr df
          \<and> map fst (columns df) =
               [''names'', ''candidates'', ''parties'', ''votes'', ''percent'', ''electorate'']
          \<and> length (rows df) = 1
          \<and> list_all (\<lambda>r. length r = length (columns df)) (rows df)
          \<and> to_csv df False False = concat (map (\<lambda>r. csv_line (map cell_text r)) (rows df))
          \<and> rows df = [[Str (py ''Bury North''), Str (py ''Smith John''), Str (py ''Lab''),
                        Str (py ''1234''), Str (py ''45.6''), Str (py ''54321'')]]
          \<and> parse (\<lambda>content. two_seats) (Inr (py ''<html>'')) None (py ''data.htm'') True
              = (Inr df,
                 Some (py ''data.csv'',
                       py ''Bury North,Smith John,Lab,1234,45.6,54321'' @ py [CHR 0x0A]))
          \<and> parse (\<lambda>content. two_seats) (Inr (py ''<html>'')) (Some OSError) (py ''data.htm'')
                False
              = (Inr df, None))"
proof -
  let ?c = "\<lparr>name = py ''Bury, North'', candidates = [py ''Smith John''], parties = [py ''Lab''],
               votes = [py ''1234''], percent = [py ''45.6''], electorate = Str (py ''54321'')\<rparr>"
  let ?names = "[bold ''Combined Universities'', bold ''Bury, North'']"
  let ?row = "[Str (py ''Bury North''), Str (py ''Smith John''), Str (py ''Lab''),
               Str (py ''1234''), Str (py ''45.6''), Str (py ''54321'')]"
  have h1: "big_table_of two_seats = Inr (find_all ''table'' two_seats ! 1)"
    by code_simp
  have h2: "collect_rows ([], []) (find_all ''tr'' (find_all ''table'' two_seats ! 1))
       = Inr (?names, [py ''2000'', py ''54321''])"
    by code_simp
  have h3: "build_constituencies ?names [py ''2000'', py ''54321''] 0 []
         (find_all ''table'' (find_all ''table'' two_seats ! 1)) = Inr [short_seat, ?c]"
    by code_simp
  have h4: "(\<lambda>content. two_seats) (py ''<html>'') = two_seats"
    by simp
  have e: "list_ex equal_lengths [short_seat, ?c]"
    "sum_list (map (\<lambda>c. length (candidates c)) (filter equal_lengths [short_seat, ?c])) = 1"
    by code_simp+
  have r: "concat (map (\<lambda>c. record_rows (c\<lparr>name := replace (py '','') [] (name c)\<rparr>))
                     (filter equal_lengths [short_seat, ?c])) = [?row]"
    by code_simp
  have path: "take (length (py ''data.htm'') - 4) (py ''data.htm'') @ py ''.csv'' = py ''data.csv''"
    by code_simp
  have line: "concat (map (\<lambda>r. csv_line (map cell_text r)) [?row])
      = py ''Bury North,Smith John,Lab,1234,45.6,54321'' @ py [CHR 0x0A]"
    by code_simp
  from final_table_columns [where lxml = "\<lambda>content. two_seats" and content = "py ''<html>''"
      and file_handle = "py ''data.htm''" and write_error = "Some OSError", OF h1 h2 h3 h4]
  obtain df where d: "parse_soup two_seats = Inr df"
    "map fst (columns df) =
       (if list_ex equal_lengths [short_seat, ?c]
        then [''names'', ''candidates'', ''parties'', ''votes'', ''percent'', ''electorate'']
        else [''names'', ''candidates'', ''parties'', ''votes'', ''percent''])"
    "length (rows df)
       = sum_list (map (\<lambda>c. length (candidates c)) (filter equal_lengths [short_seat, ?c]))"
    "list_all (\<lambda>r. length r = length (columns df)) (rows df)"
    "to_csv df False False = concat (map (\<lambda>r. csv_line (map cell_text r)) (rows df))"
    "rows df = concat (map (\<lambda>c. record_rows (c\<lparr>name := replace (py '','') [] (name c)\<rparr>))
                         (filter equal_lengths [short_seat, ?c]))"
    "parse (\<lambda>content. two_seats) (Inr (py ''<html>'')) None (py ''data.htm'') True
       = (Inr df,
          Some (take (length (py ''data.htm'') - 4) (py ''data.htm'') @ py ''.csv'',
                concat (map (\<lambda>r. csv_line (map cell_text r)) (rows df))))"
    "parse (\<lambda>content. two_seats) (Inr (py ''<html>'')) (Some OSError) (py ''data.htm'') False
       = (Inr df, None)"
    by (elim exE conjE)
  have d2: "map fst (columns df) =
               [''names'', ''candidates'', ''parties'', ''votes'', ''percent'', ''electorate'']"
    using d(2) by (simp only: e if_True)
  have d3: "length (rows df) = 1"
    using d(3) by (simp only: e)
  have d6: "rows df = [?row]"
    using d(6) by (simp only: r)
  have d7: "parse (\<lambda>content. two_seats) (Inr (py ''<html>'')) None (py ''data.htm'') True
              = (Inr df,
                 Some (py ''data.csv'',
                       py ''Bury North,Smith John,Lab,1234,45.6,54321'' @ py [CHR 0x0A]))"
    using d(7) unfolding path d6 line .
  from d(1) d2 d3 d(4) d(5) d6 d7 d(8) have
    "\<exists>df. parse_soup two_seats = Inr df
          \<and> map fst (columns df) =
               [''names'', ''candidates'', ''parties'', ''votes'', ''percent'', ''electorate'']
          \<and> length (rows df) = 1
          \<and> list_all (\<lambda>r. length r = length (columns df)) (rows df)
          \<and> to_csv df False False = concat (map (\<lambda>r. csv_line (map cell_text r)) (rows df))
          \<and> rows df = [?row]
          \<and> parse (\<lambda>content. two_seats) (Inr (py ''<html>'')) None (py ''data.htm'') True
              = (Inr df,
                 Some (py ''data.csv'',
                       py ''Bury North,Smith John,Lab,1234,45.6,54321'' @ py [CHR 0x0A]))
          \<and> parse (\<lambda>content. two_seats) (Inr (py ''<html>'')) (Some OSError) (py ''data.htm'')
                False
              = (Inr df, None)"
    by (intro exI [of _ df] conjI)
  with h1 h2 h3 show ?thesis
    by (intro conjI)
qed

theorem electorate_column_counterexample:
  "parse_soup anytown =
     Inr \<lparr>columns =
            [(''names'', [Str (py ''Anytown'')]), (''candidates'', [Str (py ''J. Doe'')]),
             (''parties'', [Str (py ''Indep'')]), (''votes'', [Str (py ''1234'')]),
             (''percent'', [Str (py ''45.6'')]), (''electorate'', [Str (py ''54321'')])],
          index = [0]\<rparr>
   \<and> snd (parse (\<lambda>content. anytown) (Inr (py ''<html>'')) None (py ''data.htm'') True)
       = Some (py ''data.csv'', py ''Anytown,J. Doe,Indep,1234,45.6,54321'' @ py [CHR 0x0A])"
  by code_simp

text \<open>
  C7. Whatever the document, no cell of the data frame that \<^verbatim>\<open>parse\<close> returns
  holds a comma: neither in a column nor, read the other way, in a row.
\<close>

theorem final_table_comma_free:
  assumes "parse_soup soup = Inr df"
  shows "list_all (\<lambda>(k, vs). list_all no_comma vs) (columns df)
         \<and> list_all (list_all no_comma) (rows df)"
proof -
  from parse_soup_Inr [OF assms] obtain big_table names elects cs df0 where
    rows: "collect_rows ([], []) (find_all ''tr'' big_table) = Inr (names, elects)"
    and build: "build_constituencies names elects 0 [] (find_all ''table'' big_table) = Inr cs"
    and df0: "assemble (DataFrame five_labels) cs = Inr df0"
    and df: "strip_names df0 = Inr df"
    by blast
  have "\<forall>e \<in> set elects. of_char CHR '','' \<notin> set e"
    using collect_rows_comma_free [OF rows] by simp
  then have cs: "\<forall>c \<in> set cs. comma_free_record c"
    using build_constituencies_comma_free [OF build] by simp
  have "\<forall>c \<in> set cs. \<forall>f. to_pandas c = Inr f \<longrightarrow> comma_free_but_names f"
    using cs to_pandas_comma_free by blast
  then have clean: "comma_free_but_names df0"
    using assemble_invariant [where P = comma_free_but_names and Q = comma_free_but_names,
        OF pd_concat_comma_free _ DataFrame_comma_free df0]
    by blast
  have "\<forall>c \<in> set cs. \<forall>f. to_pandas c = Inr f \<longrightarrow> full_columns f"
    using to_pandas_full by blast
  then have "full_columns df0"
    using assemble_invariant [where P = full_columns and Q = full_columns,
        OF pd_concat_full _ DataFrame_full df0]
    by blast
  then have full: "full_columns df"
    using strip_names_full [OF df] by simp
  have "distinct (map fst (columns df0))"
    unfolding assemble_labels [OF df0] by (simp add: six_labels_def five_labels_def)
  then have cols: "list_all (\<lambda>(k, vs). list_all no_comma vs) (columns df)"
    using strip_names_comma_free [OF df clean] by simp
  then show ?thesis
    using rows_cells [OF full cols] by simp
qed

theorem final_table_comma_free_witness:
  "parse_soup two_seats =
     Inr \<lparr>columns =
            [(''names'', [Str (py ''Bury North'')]), (''candidates'', [Str (py ''Smith John'')]),
             (''parties'', [Str (py ''Lab'')]), (''votes'', [Str (py ''1234'')]),
             (''percent'', [Str (py ''45.6'')]), (''electorate'', [Str (py ''54321'')])],
          index = [0]\<rparr>
   \<and> list_all (\<lambda>(k, vs). list_all no_comma vs)
        [(''names'', [Str (py ''Bury North'')]), (''candidates'', [Str (py ''Smith John'')]),
         (''parties'', [Str (py ''Lab'')]), (''votes'', [Str (py ''1234'')]),
         (''percent'', [Str (py ''45.6'')]), (''electorate'', [Str (py ''54321'')])]"
proof -
  have h: "parse_soup two_seats =
     Inr \<lparr>columns =
            [(''names'', [Str (py ''Bury North'')]), (''candidates'', [Str (py ''Smith John'')]),
             (''parties'', [Str (py ''Lab'')]), (''votes'', [Str (py ''1234'')]),
             (''percent'', [Str (py ''45.6'')]), (''electorate'', [Str (py ''54321'')])],
          index = [0]\<rparr>"
    by code_simp
  from final_table_comma_free [OF h] have
    "list_all (\<lambda>(k, vs). list_all no_comma vs)
        [(''names'', [Str (py ''Bury North'')]), (''candidates'', [Str (py ''Smith John'')]),
         (''parties'', [Str (py ''Lab'')]), (''votes'', [Str (py ''1234'')]),
         (''percent'', [Str (py ''45.6'')]), (''electorate'', [Str (py ''54321'')])]"
    by simp
  with h show ?thesis
    by (rule conjI)
qed

text \<open>
  C9. When the results table holds more nested tables than bold names have been
  collected, or more than electorate figures, the extraction ends with
  \<^verbatim>\<open>IndexError\<close> and no table: the loop over the nested tables gets through as
  many of them as both side lists have entries, and fails at the next one.
\<close>

theorem too_many_tables:
  assumes "big_table_of soup = Inr big_table"
    and "collect_rows ([], []) (find_all ''tr'' big_table) = Inr (names, elects)"
    and "length names < length (find_all ''table'' big_table)
         \<or> length elects < length (find_all ''table'' big_table)"
  shows "parse_soup soup = Inl IndexError
         \<and> (\<exists>cs. build_constituencies names elects 0 []
                    (take (min (length names) (length elects)) (find_all ''table'' big_table))
                  = Inr cs)
         \<and> build_constituencies names elects 0 []
              (take (Suc (min (length names) (length elects))) (find_all ''table'' big_table))
            = Inl IndexError"
proof -
  let ?tables = "find_all ''table'' big_table"
  let ?k = "min (length names) (length elects)"
  have k: "?k < length ?tables"
    using assms(3) by auto
  have "build_constituencies names elects 0 [] ?tables = Inl IndexError"
    using assms(3) by (intro build_constituencies_fail) simp_all
  then have "parse_soup soup = Inl IndexError"
    using assms(1,2) by (simp add: parse_soup_def then_do_def)
  moreover have "\<exists>cs. build_constituencies names elects 0 [] (take ?k ?tables) = Inr cs"
    using k build_constituencies_ok [of 0 "take ?k ?tables" names elects "[]"] by simp
  moreover have "build_constituencies names elects 0 [] (take (Suc ?k) ?tables) = Inl IndexError"
    using k by (intro build_constituencies_fail) auto
  ultimately show ?thesis
    by blast
qed

theorem too_many_tables_witness:
  "big_table_of unnamed_table = Inr (find_all ''table'' unnamed_table ! 1)
   \<and> collect_rows ([], []) (find_all ''tr'' (find_all ''table'' unnamed_table ! 1))
       = Inr ([Tag ''b'' [NavigableString (py ''Anytown'')]], [py ''54321''])
   \<and> length [Tag ''b'' [NavigableString (py ''Anytown'')]]
       < length (find_all ''table'' (find_all ''table'' unnamed_table ! 1))
   \<and> parse_soup unnamed_table = Inl IndexError"
proof -
  let ?big = "find_all ''table'' unnamed_table ! 1"
  have h1: "big_table_of unnamed_table = Inr ?big"
    by code_simp
  have h2: "collect_rows ([], []) (find_all ''tr'' ?big)
       = Inr ([Tag ''b'' [NavigableString (py ''Anytown'')]], [py ''54321''])"
    by code_simp
  have h3: "length [Tag ''b'' [NavigableString (py ''Anytown'')]] < length (find_all ''table'' ?big)"
    by code_simp
  from too_many_tables [OF h1 h2 disjI1 [OF h3]] have "parse_soup unnamed_table = Inl IndexError"
    by (rule conjunct1)
  with h1 h2 h3 show ?thesis
    by (intro conjI)
qed

text \<open>
  C10. The constituency built for the \<open>k\<close>-th nested table takes its fields from
  the cells of that table alone, by the position of each cell in that table: the
  cells at positions 0, 4, 8, ... are its candidates, those at 1, 5, 9, ... its
  parties, those at 2, 6, 10, ... its votes and those at 3, 7, 11, ... its
  percentages, whatever the number of cells of the tables before it.
\<close>

theorem count_reset_per_table:
  assumes "build_constituencies names elects 0 [] tables = Inr cs"
    and "k < length tables"
  shows "length cs = length tables
         \<and> candidates (cs ! k) =
             [replace (py ''*'') [] (replace (py '','') [] (text_of (cells_of (tables ! k) ! i))).
                i \<leftarrow> [0..<length (cells_of (tables ! k))], i mod 4 = 0]
         \<and> parties (cs ! k) =
             [replace (py '','') [] (text_of (cells_of (tables ! k) ! i)).
                i \<leftarrow> [0..<length (cells_of (tables ! k))], i mod 4 = 1]
         \<and> votes (cs ! k) =
             [replace (py '','') [] (text_of (cells_of (tables ! k) ! i)).
                i \<leftarrow> [0..<length (cells_of (tables ! k))], i mod 4 = 2]
         \<and> percent (cs ! k) =
             [replace (py ''%'') [] (replace (py '','') [] (text_of (cells_of (tables ! k) ! i))).
                i \<leftarrow> [0..<length (cells_of (tables ! k))], i mod 4 = 3]
         \<and> name (cs ! k) = text_of (names ! k)
         \<and> electorate (cs ! k) = Str (elects ! k)"
proof -
  let ?fresh = "\<lambda>k. (Constituency (text_of (names ! k)))\<lparr>electorate := Str (elects ! k)\<rparr>"
  have cs: "cs = map (\<lambda>(k, t). decode_table (?fresh k) t) (enumerate 0 tables)"
    using assms(1) by (rule build_constituencies_Inr(3))
  then have len: "length cs = length tables"
    by simp
  have "cs ! k = decode_table (?fresh k) (tables ! k)"
    unfolding cs using assms(2) by (simp add: nth_enumerate_eq)
  then show ?thesis
    using len by (simp add: decode_table_fields Constituency_def)
qed

theorem count_reset_per_table_witness:
  "build_constituencies
       [Tag ''b'' [NavigableString (py ''Combined Universities'')], Tag ''b'' [NavigableString (py ''Bury'')]]
       [py ''2000'', py ''54321''] 0 []
       [Tag ''table'' [Tag ''tr'' (map td [''A. Don'', ''Ind'', ''900''])],
        Tag ''table'' [Tag ''tr'' (map td [''J. Smith*'', ''Lab'', ''1,234'', ''45.6%''])]]
     = Inr [\<lparr>name = py ''Combined Universities'', candidates = [py ''A. Don''], parties = [py ''Ind''],
              votes = [py ''900''], percent = [], electorate = Str (py ''2000'')\<rparr>,
            \<lparr>name = py ''Bury'', candidates = [py ''J. Smith''], parties = [py ''Lab''],
              votes = [py ''1234''], percent = [py ''45.6''], electorate = Str (py ''54321'')\<rparr>]
   \<and> (1::nat) < length
        [Tag ''table'' [Tag ''tr'' (map td [''A. Don'', ''Ind'', ''900''])],
         Tag ''table'' [Tag ''tr'' (map td [''J. Smith*'', ''Lab'', ''1,234'', ''45.6%''])]]
   \<and> candidates ([\<lparr>name = py ''Combined Universities'', candidates = [py ''A. Don''],
                     parties = [py ''Ind''], votes = [py ''900''], percent = [],
                     electorate = Str (py ''2000'')\<rparr>,
                   \<lparr>name = py ''Bury'', candidates = [py ''J. Smith''], parties = [py ''Lab''],
                     votes = [py ''1234''], percent = [py ''45.6''],
                     electorate = Str (py ''54321'')\<rparr>] ! 1)
       = [replace (py ''*'') [] (replace (py '','') [] (text_of
            (cells_of (Tag ''table'' [Tag ''tr''
               (map td [''J. Smith*'', ''Lab'', ''1,234'', ''45.6%''])]) ! 0)))]"
proof -
  let ?names = "[Tag ''b'' [NavigableString (py ''Combined Universities'')],
                 Tag ''b'' [NavigableString (py ''Bury'')]]"
  let ?t0 = "Tag ''table'' [Tag ''tr'' (map td [''A. Don'', ''Ind'', ''900''])]"
  let ?t1 = "Tag ''table'' [Tag ''tr'' (map td [''J. Smith*'', ''Lab'', ''1,234'', ''45.6%''])]"
  let ?cs = "[\<lparr>name = py ''Combined Universities'', candidates = [py ''A. Don''], parties = [py ''Ind''],
              votes = [py ''900''], percent = [], electorate = Str (py ''2000'')\<rparr>,
            \<lparr>name = py ''Bury'', candidates = [py ''J. Smith''], parties = [py ''Lab''],
              votes = [py ''1234''], percent = [py ''45.6''], electorate = Str (py ''54321'')\<rparr>]"
  have h1: "build_constituencies ?names [py ''2000'', py ''54321''] 0 [] [?t0, ?t1] = Inr ?cs"
    by code_simp
  have h2: "(1::nat) < length [?t0, ?t1]"
    by simp
  have cells: "[0..<length (cells_of ([?t0, ?t1] ! 1))] = [0, 1, 2, 3]"
    by code_simp
  from count_reset_per_table [OF h1 h2] have
    "candidates (?cs ! 1) =
       [replace (py ''*'') [] (replace (py '','') [] (text_of (cells_of ([?t0, ?t1] ! 1) ! i))).
          i \<leftarrow> [0..<length (cells_of ([?t0, ?t1] ! 1))], i mod 4 = 0]"
    by blast
  then have "candidates (?cs ! 1) =
       [replace (py ''*'') [] (replace (py '','') [] (text_of (cells_of ?t1 ! 0)))]"
    unfolding cells by simp
  with h1 h2 show ?thesis
    by (intro conjI)
qed

end
